theory Spec2Isabelle
  imports Main "HOL-Library.Word" "HOL-Library.Multiset" "HOL-Library.List_Lexorder"
begin


section \<open>Strings of the host language\<close>

text \<open>
  A JavaScript string is a sequence of 16-bit code units.  Literals of the source are
  written \<open>str ''...''\<close>.
\<close>

type_synonym cu = "16 word"
type_synonym jsstring = "cu list"

definition str :: "string \<Rightarrow> jsstring" where
  "str s = map (\<lambda>c. of_nat (of_char c)) s"

text \<open>
  \<open>String.prototype.trim\<close> strips the code units of WhiteSpace and LineTerminator
  (ECMA-262, 22.1.3.32) from both ends.
\<close>

definition isWhiteSpace :: "cu \<Rightarrow> bool" where
  "isWhiteSpace c =
     (let n = unat c in
      n = 0x09 \<or> n = 0x0A \<or> n = 0x0B \<or> n = 0x0C \<or> n = 0x0D \<or> n = 0x20 \<or> n = 0xA0
      \<or> n = 0x1680 \<or> (0x2000 \<le> n \<and> n \<le> 0x200A) \<or> n = 0x2028 \<or> n = 0x2029
      \<or> n = 0x202F \<or> n = 0x205F \<or> n = 0x3000 \<or> n = 0xFEFF)"

definition trim :: "jsstring \<Rightarrow> jsstring" where
  "trim s = rev (dropWhile isWhiteSpace (rev (dropWhile isWhiteSpace s)))"

section \<open>Data model (types.ts)\<close>

datatype ItemType = BOOK | MOVIE | GAME

datatype ItemStatus = WANT_TO | IN_PROGRESS | COMPLETED

record Memory =
  memId :: jsstring
  imageData :: jsstring
  caption :: jsstring
  sourceLocation :: "jsstring option"
  memAddedAt :: jsstring

record MediaItem =
  itemId :: jsstring
  title :: jsstring
  originalTitle :: "jsstring option"
  itemType :: ItemType
  creator :: jsstring
  year :: jsstring
  description :: jsstring
  status :: ItemStatus
  rating :: "int option"
  review :: "jsstring option"
  memories :: "Memory list"
  addedAt :: jsstring
  collectionIds :: "jsstring list"
  coverUrl :: "jsstring option"
  collaborators :: "jsstring list option"

record UserCollection =
  colId :: jsstring
  colTitle :: jsstring
  colDescription :: "jsstring option"
  colType :: ItemType
  createdAt :: jsstring

record SearchResult =
  srTitle :: jsstring
  srType :: ItemType
  srCreator :: jsstring
  srYear :: jsstring
  srDescription :: jsstring

text \<open>
  \<open>Partial<MediaItem>\<close> as it travels in a shared collection: every field may be absent.
  Only the fields that \<open>handleImportCollection\<close> reads are kept.
\<close>

record SharedItem =
  shTitle :: "jsstring option"
  shType :: "ItemType option"
  shCreator :: "jsstring option"
  shYear :: "jsstring option"
  shDescription :: "jsstring option"
  shCoverUrl :: "jsstring option"

record SharedCollectionPayload =
  plTitle :: jsstring
  plType :: ItemType
  plSharer :: "jsstring option"
  plItems :: "SharedItem list"

record SharedItemPayload =
  editItem :: MediaItem
  editSharer :: jsstring

section \<open>Application state (App.tsx)\<close>

datatype ToastType = Success | Error | Info

datatype View = LIBRARY | SEARCH | COLLECTIONS

datatype SortCriteria = DATE | TITLE | RATING

datatype SortOrder = ASC | DESC

record AppState =
  items :: "MediaItem list"
  userCollections :: "UserCollection list"
  toast :: "(jsstring \<times> ToastType) option"
  activeType :: ItemType
  view :: View
  activeCollectionId :: "jsstring option"
  selectedItem :: "MediaItem option"
  selectedIds :: "jsstring list"
  isSelectionMode :: bool
  librarySelectionIds :: "jsstring list"
  isAddFromLibraryOpen :: bool
  pendingShare :: "SharedCollectionPayload option"
  pendingEdit :: "SharedItemPayload option"
  importPreview :: "SharedCollectionPayload option"
  showImportInput :: bool
  editCollectionTitle :: jsstring
  editCollectionDesc :: jsstring
  isEditingCollection :: bool
  sortCriteria :: SortCriteria
  sortOrder :: SortOrder
  sharingCollection :: "UserCollection option"
  sharerNameInput :: jsstring
  importInputValue :: jsstring

definition showToast :: "jsstring \<Rightarrow> ToastType \<Rightarrow> AppState \<Rightarrow> AppState" where
  "showToast message ty st = st\<lparr>toast := Some (message, ty)\<rparr>"

subsection \<open>Items\<close>

text \<open>
  \<open>crypto.randomUUID()\<close> and \<open>new Date().toISOString()\<close> are inputs of the model:
  the caller supplies the values the environment produced.
\<close>

definition addToLibrary ::
  "jsstring \<Rightarrow> jsstring \<Rightarrow> SearchResult \<Rightarrow> jsstring option \<Rightarrow> AppState \<Rightarrow> AppState" where
  "addToLibrary uuid now result collectionId st =
     (let newItem = \<lparr>itemId = uuid, title = srTitle result, originalTitle = None,
                      itemType = srType result, creator = srCreator result,
                      year = srYear result, description = srDescription result,
                      status = WANT_TO, rating = None, review = None, memories = [],
                      addedAt = now,
                      collectionIds = (case collectionId of Some c \<Rightarrow> (if c = [] then [] else [c]) | None \<Rightarrow> []),
                      coverUrl = None, collaborators = None\<rparr>
      in st\<lparr>items := newItem # items st\<rparr>)"

definition matchesResult :: "SearchResult \<Rightarrow> MediaItem \<Rightarrow> bool" where
  "matchesResult result i =
     (title i = srTitle result \<and> creator i = srCreator result \<and> itemType i = srType result)"

definition handleRemoveFromSearch :: "SearchResult \<Rightarrow> AppState \<Rightarrow> AppState" where
  "handleRemoveFromSearch result st =
     st\<lparr>items := filter (\<lambda>i. \<not> matchesResult result i) (items st)\<rparr>"

definition handleUpdateItem :: "MediaItem \<Rightarrow> AppState \<Rightarrow> AppState" where
  "handleUpdateItem updated st =
     st\<lparr>items := map (\<lambda>i. if itemId i = itemId updated then updated else i) (items st),
        selectedItem := (case selectedItem st of
                           Some prev \<Rightarrow> (if itemId prev = itemId updated then Some updated else Some prev)
                         | None \<Rightarrow> None)\<rparr>"

definition handleDeleteItem :: "jsstring \<Rightarrow> AppState \<Rightarrow> AppState" where
  "handleDeleteItem i st =
     st\<lparr>items := filter (\<lambda>x. itemId x \<noteq> i) (items st), selectedItem := None\<rparr>"

text \<open>
  \<open>handleItemCollectionUpdate\<close> queues a functional update of \<open>items\<close> and reads
  \<open>selectedItem\<close> from the render snapshot \<open>snap\<close>; a handler that calls it several
  times passes its own snapshot, a direct call passes the state itself.
\<close>

definition handleItemCollectionUpdate ::
  "AppState \<Rightarrow> jsstring \<Rightarrow> jsstring list \<Rightarrow> AppState \<Rightarrow> AppState" where
  "handleItemCollectionUpdate snap i cids st =
     st\<lparr>items := map (\<lambda>x. if itemId x = i then x\<lparr>collectionIds := cids\<rparr> else x) (items st),
        selectedItem := (case selectedItem snap of
                           Some sel \<Rightarrow> (if itemId sel = i then Some (sel\<lparr>collectionIds := cids\<rparr>)
                                        else selectedItem st)
                         | None \<Rightarrow> selectedItem st)\<rparr>"

subsection \<open>Collections\<close>

text \<open>
  \<open>String.prototype.toLowerCase\<close> follows the Unicode case tables of the host; it is
  a parameter \<open>lower\<close> of every definition that compares titles.
\<close>

definition titleTaken :: "(jsstring \<Rightarrow> jsstring) \<Rightarrow> UserCollection list \<Rightarrow> ItemType \<Rightarrow> jsstring \<Rightarrow> bool" where
  "titleTaken lower cols ty t = list_ex (\<lambda>c. colType c = ty \<and> lower (colTitle c) = lower t) cols"

definition handleCreateCollection ::
  "(jsstring \<Rightarrow> jsstring) \<Rightarrow> jsstring \<Rightarrow> jsstring \<Rightarrow> jsstring \<Rightarrow> jsstring \<Rightarrow> ItemType
     \<Rightarrow> AppState \<Rightarrow> jsstring option \<times> AppState" where
  "handleCreateCollection lower uuid now ttl desc ty st =
     (let trimmedTitle = trim ttl in
      if trimmedTitle = [] then (None, st)
      else if titleTaken lower (userCollections st) ty trimmedTitle
      then (None, showToast (str ''A collection with this name already exists.'') Error st)
      else
        (Some uuid, st\<lparr>userCollections := userCollections st @
                 [\<lparr>colId = uuid, colTitle = trimmedTitle, colDescription = Some desc,
                   colType = ty, createdAt = now\<rparr>]\<rparr>))"

definition handleSaveCollection :: "(jsstring \<Rightarrow> jsstring) \<Rightarrow> AppState \<Rightarrow> AppState" where
  "handleSaveCollection lower st =
     (case activeCollectionId st of
        None \<Rightarrow> st
      | Some cid \<Rightarrow>
          if cid = [] then st
          else let trimmedTitle = trim (editCollectionTitle st) in
            if trimmedTitle = [] then st
            else if list_ex (\<lambda>c. colType c = activeType st \<and> colId c \<noteq> cid
                                  \<and> lower (colTitle c) = lower trimmedTitle) (userCollections st)
            then showToast (str ''A collection with this name already exists.'') Error st
            else st\<lparr>userCollections :=
                      map (\<lambda>c. if colId c = cid
                                then c\<lparr>colTitle := trimmedTitle,
                                       colDescription := Some (editCollectionDesc st)\<rparr>
                                else c) (userCollections st),
                    isEditingCollection := False\<rparr>)"

definition handleDeleteCollection :: "jsstring \<Rightarrow> AppState \<Rightarrow> AppState" where
  "handleDeleteCollection collectionId st =
     st\<lparr>items := map (\<lambda>item. item\<lparr>collectionIds := filter (\<lambda>i. i \<noteq> collectionId) (collectionIds item)\<rparr>)
                     (items st),
        userCollections := filter (\<lambda>c. colId c \<noteq> collectionId) (userCollections st),
        activeCollectionId := (if activeCollectionId st = Some collectionId then None
                               else activeCollectionId st)\<rparr>"

subsection \<open>Number to string\<close>

text \<open>
  A template literal prints a non-negative integer in decimal, without leading zeros.
\<close>

definition digit :: "nat \<Rightarrow> cu" where
  "digit d = of_nat (48 + d)"

fun dec :: "nat \<Rightarrow> jsstring" where
  "dec n = (if n < 10 then [digit n] else dec (n div 10) @ [digit (n mod 10)])"

declare dec.simps [simp del]

subsection \<open>JavaScript sets of strings\<close>

text \<open>
  A \<open>Set<string>\<close> is kept as the list of its members in insertion order.
  \<open>new Set(xs)\<close> adds the elements of \<open>xs\<close> one by one; \<open>add\<close> leaves
  a set that already has the member as it is; \<open>Array.from\<close> returns the list.
\<close>

definition setAdd :: "jsstring list \<Rightarrow> jsstring \<Rightarrow> jsstring list" where
  "setAdd s x = (if x \<in> set s then s else s @ [x])"

definition newSet :: "jsstring list \<Rightarrow> jsstring list" where
  "newSet xs = foldl setAdd [] xs"

subsection \<open>More item and collection handlers\<close>

definition handleAddToCollectionFromLibrary :: "AppState \<Rightarrow> AppState" where
  "handleAddToCollectionFromLibrary st =
     (case activeCollectionId st of
        None \<Rightarrow> st
      | Some cid \<Rightarrow>
          if cid = [] then st
          else showToast (str ''Items added to collection'') Success
            (st\<lparr>items := map (\<lambda>item.
                        if itemId item \<in> set (librarySelectionIds st)
                           \<and> cid \<notin> set (collectionIds item)
                        then item\<lparr>collectionIds := collectionIds item @ [cid]\<rparr>
                        else item) (items st),
                isAddFromLibraryOpen := False,
                librarySelectionIds := []\<rparr>))"

definition handleBatchDelete :: "AppState \<Rightarrow> AppState" where
  "handleBatchDelete st =
     (let inCollection = (view st = COLLECTIONS \<and>
                          (case activeCollectionId st of Some c \<Rightarrow> c \<noteq> [] | None \<Rightarrow> False));
          st1 = (if inCollection then
                   showToast (str ''Removed '' @ dec (length (selectedIds st)) @ str '' items from collection.'') Info
                     (st\<lparr>items := map (\<lambda>item.
                                 if itemId item \<in> set (selectedIds st)
                                 then item\<lparr>collectionIds :=
                                        filter (\<lambda>i. Some i \<noteq> activeCollectionId st) (collectionIds item)\<rparr>
                                 else item) (items st)\<rparr>)
                 else
                   showToast (str ''Deleted '' @ dec (length (selectedIds st)) @ str '' items.'') Info
                     (st\<lparr>items := filter (\<lambda>item. itemId item \<notin> set (selectedIds st)) (items st)\<rparr>))
      in st1\<lparr>selectedIds := [], isSelectionMode := False\<rparr>)"

definition handleBatchStatus :: "ItemStatus \<Rightarrow> AppState \<Rightarrow> AppState" where
  "handleBatchStatus s st =
     showToast (str ''Status updated for selected items.'') Success
       (st\<lparr>items := map (\<lambda>item. if itemId item \<in> set (selectedIds st) then item\<lparr>status := s\<rparr> else item)
                        (items st),
           selectedIds := [], isSelectionMode := False\<rparr>)"

subsection \<open>Importing a shared collection\<close>

definition importSuffix :: "jsstring option \<Rightarrow> jsstring" where
  "importSuffix sharer =
     (case sharer of
        Some s \<Rightarrow> (if s = [] then str ''(Imported)'' else str ''(Shared by '' @ s @ str '')'')
      | None \<Rightarrow> str ''(Imported)'')"

definition importBaseTitle :: "SharedCollectionPayload \<Rightarrow> jsstring" where
  "importBaseTitle payload = plTitle payload @ str '' '' @ importSuffix (plSharer payload)"

definition numbered :: "jsstring \<Rightarrow> nat \<Rightarrow> jsstring" where
  "numbered baseTitle counter = baseTitle @ str '' ('' @ dec counter @ str '')''"

text \<open>
  The \<open>while\<close> loop that looks for a free title.  It has no bound in the source, so
  not returning is the value \<open>None\<close>.
\<close>

partial_function (option) uniqueTitleLoop ::
  "(jsstring \<Rightarrow> jsstring) \<Rightarrow> UserCollection list \<Rightarrow> ItemType \<Rightarrow> jsstring \<Rightarrow> jsstring \<Rightarrow> nat
     \<Rightarrow> jsstring option" where
  "uniqueTitleLoop lower cols ty baseTitle titleToUse counter =
     (if titleTaken lower cols ty titleToUse
      then uniqueTitleLoop lower cols ty baseTitle (numbered baseTitle counter) (counter + 1)
      else Some titleToUse)"

declare uniqueTitleLoop.simps [code]

definition matchesShared :: "SharedItem \<Rightarrow> MediaItem \<Rightarrow> bool" where
  "matchesShared sharedItem i =
     (Some (title i) = shTitle sharedItem \<and> Some (creator i) = shCreator sharedItem
      \<and> Some (itemType i) = shType sharedItem)"

definition orElse :: "jsstring option \<Rightarrow> jsstring \<Rightarrow> jsstring" where
  "orElse v d = (case v of Some s \<Rightarrow> (if s = [] then d else s) | None \<Rightarrow> d)"

definition importedItem ::
  "jsstring \<Rightarrow> jsstring \<Rightarrow> jsstring \<Rightarrow> ItemType \<Rightarrow> SharedItem \<Rightarrow> MediaItem" where
  "importedItem uuid now newCollectionId payloadType sharedItem =
     \<lparr>itemId = uuid,
      title = orElse (shTitle sharedItem) (str ''Unknown''),
      originalTitle = None,
      itemType = (case shType sharedItem of Some t \<Rightarrow> t | None \<Rightarrow> payloadType),
      creator = orElse (shCreator sharedItem) (str ''Unknown''),
      year = orElse (shYear sharedItem) [],
      description = orElse (shDescription sharedItem) [],
      status = WANT_TO, rating = None, review = None, memories = [],
      addedAt = now,
      collectionIds = [newCollectionId],
      coverUrl = shCoverUrl sharedItem,
      collaborators = None\<rparr>"

text \<open>
  The body of \<open>payload.items.forEach\<close>.  \<open>snap\<close> is the render snapshot that the
  closure reads (\<open>items.find\<close>); \<open>ids (Suc k)\<close> and \<open>nows (Suc k)\<close> are the
  identifier and the timestamp the environment hands out for the \<open>k\<close>-th created
  item (index \<open>0\<close> is used for the collection).
\<close>

fun importItems ::
  "AppState \<Rightarrow> (nat \<Rightarrow> jsstring) \<Rightarrow> (nat \<Rightarrow> jsstring) \<Rightarrow> jsstring \<Rightarrow> ItemType
     \<Rightarrow> SharedItem list \<Rightarrow> MediaItem list \<times> AppState \<Rightarrow> MediaItem list \<times> AppState" where
  "importItems snap ids nows newCollectionId pty [] acc = acc"
| "importItems snap ids nows newCollectionId pty (sharedItem # rest) (newItems, st) =
     (case find (matchesShared sharedItem) (items snap) of
        Some existingItem \<Rightarrow>
          importItems snap ids nows newCollectionId pty rest
            (newItems,
             handleItemCollectionUpdate snap (itemId existingItem)
               (collectionIds existingItem @ [newCollectionId]) st)
      | None \<Rightarrow>
          importItems snap ids nows newCollectionId pty rest
            (newItems @ [importedItem (ids (Suc (length newItems))) (nows (Suc (length newItems)))
                            newCollectionId pty sharedItem],
             st))"

definition finishImport :: "jsstring \<Rightarrow> MediaItem list \<times> AppState \<Rightarrow> AppState" where
  "finishImport newCollectionId r =
     (case r of (newItems, st) \<Rightarrow>
        showToast (str ''Collection imported successfully!'') Success
          (st\<lparr>items := newItems @ items st,
              pendingShare := None,
              importPreview := None,
              showImportInput := False,
              activeCollectionId := Some newCollectionId,
              view := COLLECTIONS\<rparr>))"

definition handleImportCollection ::
  "(jsstring \<Rightarrow> jsstring) \<Rightarrow> (nat \<Rightarrow> jsstring) \<Rightarrow> (nat \<Rightarrow> jsstring) \<Rightarrow> SharedCollectionPayload
     \<Rightarrow> AppState \<Rightarrow> AppState option" where
  "handleImportCollection lower ids nows payload st =
     (case uniqueTitleLoop lower (userCollections st) (plType payload)
             (importBaseTitle payload) (importBaseTitle payload) 1 of
        None \<Rightarrow> None
      | Some titleToUse \<Rightarrow>
          (case handleCreateCollection lower (ids 0) (nows 0) titleToUse [] (plType payload) st of
             (None, st1) \<Rightarrow> Some st1
           | (Some newCollectionId, st1) \<Rightarrow>
               if newCollectionId = [] then Some st1
               else Some (finishImport newCollectionId
                            (importItems st ids nows newCollectionId (plType payload)
                               (plItems payload) ([], st1)))))"

subsection \<open>Accepting a shared edit\<close>

fun findIndex :: "('a \<Rightarrow> bool) \<Rightarrow> 'a list \<Rightarrow> nat option" where
  "findIndex P [] = None"
| "findIndex P (x # xs) =
     (if P x then Some 0 else (case findIndex P xs of Some k \<Rightarrow> Some (Suc k) | None \<Rightarrow> None))"

definition acceptedItem :: "SharedItemPayload \<Rightarrow> MediaItem" where
  "acceptedItem pe =
     (editItem pe)\<lparr>collaborators :=
        Some (setAdd (newSet (case collaborators (editItem pe) of Some l \<Rightarrow> l | None \<Rightarrow> []))
                     (editSharer pe))\<rparr>"

definition handleAcceptEdit :: "AppState \<Rightarrow> AppState" where
  "handleAcceptEdit st =
     (case pendingEdit st of
        None \<Rightarrow> st
      | Some pe \<Rightarrow>
          (let updatedItem = acceptedItem pe;
               st1 = (case findIndex (\<lambda>i. itemId i = itemId (editItem pe)) (items st) of
                        Some existingIndex \<Rightarrow> st\<lparr>items := (items st)[existingIndex := updatedItem]\<rparr>
                      | None \<Rightarrow> st\<lparr>items := updatedItem # items st\<rparr>)
           in showToast (str ''Card updated from shared edit.'') Success
                (st1\<lparr>pendingEdit := None, selectedItem := Some updatedItem\<rparr>)))"

subsection \<open>Properties stated about imports\<close>

text \<open>
  No two collections of one type have titles that are equal after lower-casing.
\<close>

fun uniqueTitles :: "(jsstring \<Rightarrow> jsstring) \<Rightarrow> UserCollection list \<Rightarrow> bool" where
  "uniqueTitles lower [] = True"
| "uniqueTitles lower (c # cs) =
     (\<not> titleTaken lower cs (colType c) (colTitle c) \<and> uniqueTitles lower cs)"

text \<open>
  Each collection of \<open>added\<close>, appended in turn to \<open>cols\<close>, has a title that no
  collection before it has for the same type, up to case.
\<close>

fun addedUnique :: "(jsstring \<Rightarrow> jsstring) \<Rightarrow> UserCollection list \<Rightarrow> UserCollection list \<Rightarrow> bool" where
  "addedUnique lower cols [] = True"
| "addedUnique lower cols (c # cs) =
     (\<not> titleTaken lower cols (colType c) (colTitle c) \<and> addedUnique lower (cols @ [c]) cs)"

text \<open>
  Importing the same payload \<open>n\<close> times in a row; round \<open>r\<close> draws its identifiers and
  timestamps from \<open>ids r\<close> and \<open>nows r\<close>.
\<close>

fun repeatImport ::
  "(jsstring \<Rightarrow> jsstring) \<Rightarrow> (nat \<Rightarrow> nat \<Rightarrow> jsstring) \<Rightarrow> (nat \<Rightarrow> nat \<Rightarrow> jsstring)
     \<Rightarrow> SharedCollectionPayload \<Rightarrow> nat \<Rightarrow> AppState \<Rightarrow> AppState option" where
  "repeatImport lower ids nows payload 0 st = Some st"
| "repeatImport lower ids nows payload (Suc n) st =
     (case handleImportCollection lower (ids 0) (nows 0) payload st of
        None \<Rightarrow> None
      | Some st' \<Rightarrow> repeatImport lower (\<lambda>r. ids (Suc r)) (\<lambda>r. nows (Suc r)) payload n st')"

text \<open>The number a decimal numeral stands for.\<close>

definition decval :: "jsstring \<Rightarrow> nat" where
  "decval s = foldl (\<lambda>a c. 10 * a + (unat c - 48)) 0 s"

text \<open>
  \<open>linked snap shs x e\<close>: for some incoming item of \<open>shs\<close>, \<open>e\<close> is the first library
  item with identical title, creator and type, and \<open>e\<close> carries the identifier of \<open>x\<close>.
\<close>

definition linked :: "AppState \<Rightarrow> SharedItem list \<Rightarrow> MediaItem \<Rightarrow> MediaItem \<Rightarrow> bool" where
  "linked snap shs x e = (\<exists>sh\<in>set shs. find (matchesShared sh) (items snap) = Some e \<and> itemId e = itemId x)"


subsection \<open>The operations on the library, as one step function\<close>

text \<open>
  Every handler that writes \<open>items\<close> or \<open>userCollections\<close>, with the values it takes
  from its caller and from the environment.  A step of \<open>ImportCollection\<close> is \<open>None\<close>
  when the title search does not return.
\<close>

datatype Op =
    AddToLibrary jsstring jsstring SearchResult "jsstring option"
  | RemoveFromSearch SearchResult
  | UpdateItem MediaItem
  | DeleteItem jsstring
  | ItemCollectionUpdate jsstring "jsstring list"
  | CreateCollection jsstring jsstring jsstring jsstring ItemType
  | DeleteCollection jsstring
  | SaveCollection
  | AddToCollectionFromLibrary
  | ImportCollection "nat \<Rightarrow> jsstring" "nat \<Rightarrow> jsstring" SharedCollectionPayload
  | AcceptEdit
  | BatchDelete
  | BatchStatus ItemStatus

fun step :: "(jsstring \<Rightarrow> jsstring) \<Rightarrow> Op \<Rightarrow> AppState \<Rightarrow> AppState option" where
  "step lower (AddToLibrary uuid now result collectionId) st = Some (addToLibrary uuid now result collectionId st)"
| "step lower (RemoveFromSearch result) st = Some (handleRemoveFromSearch result st)"
| "step lower (UpdateItem updated) st = Some (handleUpdateItem updated st)"
| "step lower (DeleteItem i) st = Some (handleDeleteItem i st)"
| "step lower (ItemCollectionUpdate i cids) st = Some (handleItemCollectionUpdate st i cids st)"
| "step lower (CreateCollection uuid now ttl desc ty) st =
     Some (snd (handleCreateCollection lower uuid now ttl desc ty st))"
| "step lower (DeleteCollection cid) st = Some (handleDeleteCollection cid st)"
| "step lower SaveCollection st = Some (handleSaveCollection lower st)"
| "step lower AddToCollectionFromLibrary st = Some (handleAddToCollectionFromLibrary st)"
| "step lower (ImportCollection ids nows payload) st = handleImportCollection lower ids nows payload st"
| "step lower AcceptEdit st = Some (handleAcceptEdit st)"
| "step lower BatchDelete st = Some (handleBatchDelete st)"
| "step lower (BatchStatus s) st = Some (handleBatchStatus s st)"

text \<open>
  The identifiers an operation draws for new items are not in use.
\<close>

fun freshIds :: "Op \<Rightarrow> AppState \<Rightarrow> bool" where
  "freshIds (AddToLibrary uuid now result collectionId) st = (uuid \<notin> itemId ` set (items st))"
| "freshIds (ImportCollection ids nows payload) st =
     list_all (\<lambda>k. ids (Suc k) \<notin> itemId ` set (items st)) [0..<length (plItems payload)]"
| "freshIds _ st = True"

text \<open>
  The item an operation stores in place of an existing one has the type of the item it
  replaces.
\<close>

fun keepsType :: "Op \<Rightarrow> AppState \<Rightarrow> bool" where
  "keepsType (UpdateItem updated) st =
     list_all (\<lambda>x. itemId x = itemId updated \<longrightarrow> itemType x = itemType updated) (items st)"
| "keepsType AcceptEdit st =
     (case pendingEdit st of
        None \<Rightarrow> True
      | Some pe \<Rightarrow> list_all (\<lambda>x. itemId x = itemId (editItem pe) \<longrightarrow> itemType x = itemType (editItem pe))
                    (items st))"
| "keepsType _ st = True"

text \<open>
  Every item after the step has a new identifier or is matched by an item before the step
  of the same identifier and type.
\<close>

definition traces :: "AppState \<Rightarrow> AppState \<Rightarrow> bool" where
  "traces st st' = (\<forall>y\<in>set (items st'). itemId y \<notin> itemId ` set (items st)
                      \<or> (\<exists>x\<in>set (items st). itemId x = itemId y \<and> itemType x = itemType y))"


subsection \<open>Sorting the view\<close>

text \<open>
  \<open>Array.prototype.sort\<close> with a comparison function reads a result that is \<open>NaN\<close> as
  \<open>+0\<close> and is stable (ECMAScript 2019).  ECMA-262 fixes its result only when the
  comparison is a consistent comparator for the elements being sorted: ``compares equal''
  is reflexive, symmetric and transitive, and ``compares less'' and ``compares greater''
  are transitive.  \<open>consistentOn\<close> asks this of the values as the sort reads them.  For
  such a comparison there is one sorted and stable arrangement, which every engine
  returns and which the insertion below computes: an element goes in front of the first
  element that it does not compare greater than.  For any other comparison the order
  depends on the algorithm of the engine; \<open>arraySort\<close> then returns \<open>None\<close>, and nothing
  is stated about the result.
\<close>

fun insertSorted :: "('a \<Rightarrow> 'a \<Rightarrow> int) \<Rightarrow> 'a \<Rightarrow> 'a list \<Rightarrow> 'a list" where
  "insertSorted cmp x [] = [x]"
| "insertSorted cmp x (y # ys) =
     (if cmp x y \<le> 0 then x # y # ys else y # insertSorted cmp x ys)"

definition consistentOn :: "('a \<Rightarrow> 'a \<Rightarrow> int) \<Rightarrow> 'a list \<Rightarrow> bool" where
  "consistentOn cmp xs =
     list_all (\<lambda>a. cmp a a = 0 \<and>
       list_all (\<lambda>b. (cmp a b = 0 \<longrightarrow> cmp b a = 0) \<and>
         list_all (\<lambda>c. (cmp a b = 0 \<and> cmp b c = 0 \<longrightarrow> cmp a c = 0)
                      \<and> (cmp a b < 0 \<and> cmp b c < 0 \<longrightarrow> cmp a c < 0)
                      \<and> (cmp a b > 0 \<and> cmp b c > 0 \<longrightarrow> cmp a c > 0)) xs) xs) xs"

definition arraySort :: "('a \<Rightarrow> 'a \<Rightarrow> int) \<Rightarrow> 'a list \<Rightarrow> 'a list option" where
  "arraySort cmp xs = (if consistentOn cmp xs then Some (foldr (insertSorted cmp) xs []) else None)"

text \<open>
  \<open>new Date(s).getTime()\<close> is the parameter \<open>getTime\<close> (\<open>None\<close> for \<open>NaN\<close>, the time of
  an invalid date), and \<open>String.prototype.localeCompare\<close> is the parameter
  \<open>localeCompare\<close>: both depend on the host.  A difference with \<open>NaN\<close> is \<open>NaN\<close>, and so
  is its negation; the sort reads both as \<open>0\<close>.
\<close>

definition ratingOrZero :: "MediaItem \<Rightarrow> int" where
  "ratingOrZero a = (case rating a of Some r \<Rightarrow> r | None \<Rightarrow> 0)"

definition comparison ::
  "(jsstring \<Rightarrow> int option) \<Rightarrow> (jsstring \<Rightarrow> jsstring \<Rightarrow> int) \<Rightarrow> SortCriteria
     \<Rightarrow> MediaItem \<Rightarrow> MediaItem \<Rightarrow> int" where
  "comparison getTime localeCompare criteria a b =
     (case criteria of
        DATE \<Rightarrow> (case (getTime (addedAt a), getTime (addedAt b)) of
                   (Some x, Some y) \<Rightarrow> x - y
                 | _ \<Rightarrow> 0)
      | TITLE \<Rightarrow> localeCompare (title a) (title b)
      | RATING \<Rightarrow> ratingOrZero a - ratingOrZero b)"

definition getSortedItems ::
  "(jsstring \<Rightarrow> int option) \<Rightarrow> (jsstring \<Rightarrow> jsstring \<Rightarrow> int) \<Rightarrow> AppState
     \<Rightarrow> MediaItem list \<Rightarrow> MediaItem list option" where
  "getSortedItems getTime localeCompare st xs =
     arraySort (\<lambda>a b. if sortOrder st = ASC
                       then comparison getTime localeCompare (sortCriteria st) a b
                       else - comparison getTime localeCompare (sortCriteria st) a b) xs"

section \<open>Search (App.tsx, services/geminiService.ts)\<close>




















section \<open>Sharing codec\<close>

subsection \<open>Hexadecimal digits\<close>

definition hexDigit :: "bool \<Rightarrow> nat \<Rightarrow> cu" where
  "hexDigit upper d = of_nat (if d < 10 then 48 + d else (if upper then 55 else 87) + d)"

definition unhex :: "cu \<Rightarrow> nat option" where
  "unhex c =
     (let n = unat c in
      if 48 \<le> n \<and> n \<le> 57 then Some (n - 48)
      else if 65 \<le> n \<and> n \<le> 70 then Some (n - 55)
      else if 97 \<le> n \<and> n \<le> 102 then Some (n - 87)
      else None)"

subsection \<open>Surrogates\<close>

definition isHigh :: "cu \<Rightarrow> bool" where
  "isHigh c = (0xD800 \<le> unat c \<and> unat c \<le> 0xDBFF)"

definition isLow :: "cu \<Rightarrow> bool" where
  "isLow c = (0xDC00 \<le> unat c \<and> unat c \<le> 0xDFFF)"

subsection \<open>JSON values and \<open>JSON.stringify\<close>\<close>

text \<open>
  The values that \<open>JSON.parse\<close> returns, without numbers: the payloads of this program
  that are serialised for sharing a collection hold strings, arrays and objects only.  An
  object is the list of its members in the order of the text.
\<close>

datatype json = JNull | JBool bool | JString jsstring | JArray "json list"
  | JObject "(jsstring \<times> json) list"

text \<open>
  \<open>QuoteJSONString\<close> (ECMA-262, 25.5.2.3) walks the code points of the string: a
  surrogate pair is copied, a lone surrogate and a control character are escaped.
\<close>

definition hex4 :: "cu \<Rightarrow> jsstring" where
  "hex4 c =
     (let n = unat c in
      [hexDigit False (n div 4096), hexDigit False (n div 256 mod 16),
       hexDigit False (n div 16 mod 16), hexDigit False (n mod 16)])"

definition escapeUnit :: "cu \<Rightarrow> jsstring" where
  "escapeUnit c =
     (let n = unat c in
      if n = 8 then [92, 98]
      else if n = 9 then [92, 116]
      else if n = 10 then [92, 110]
      else if n = 12 then [92, 102]
      else if n = 13 then [92, 114]
      else if n = 34 then [92, 34]
      else if n = 92 then [92, 92]
      else if n < 32 \<or> isHigh c \<or> isLow c then [92, 117] @ hex4 c
      else [c])"

fun quoteBody :: "jsstring \<Rightarrow> jsstring" where
  "quoteBody [] = []"
| "quoteBody [c] = escapeUnit c"
| "quoteBody (c # d # r) =
     (if isHigh c \<and> isLow d then c # d # quoteBody r
      else escapeUnit c @ quoteBody (d # r))"

definition quoteJSONString :: "jsstring \<Rightarrow> jsstring" where
  "quoteJSONString s = 34 # quoteBody s @ [34]"

fun joinComma :: "jsstring list \<Rightarrow> jsstring" where
  "joinComma [] = []"
| "joinComma [x] = x"
| "joinComma (x # y # r) = x @ 44 # joinComma (y # r)"

fun JSON_stringify :: "json \<Rightarrow> jsstring" where
  "JSON_stringify JNull = str ''null''"
| "JSON_stringify (JBool b) = (if b then str ''true'' else str ''false'')"
| "JSON_stringify (JString s) = quoteJSONString s"
| "JSON_stringify (JArray vs) = 91 # joinComma (map JSON_stringify vs) @ [93]"
| "JSON_stringify (JObject ms) =
     123 # joinComma (map (\<lambda>m. quoteJSONString (fst m) @ 58 # JSON_stringify (snd m)) ms) @ [125]"

subsection \<open>\<open>JSON.parse\<close>\<close>

definition isJsonWs :: "cu \<Rightarrow> bool" where
  "isJsonWs c = (c = 32 \<or> c = 9 \<or> c = 10 \<or> c = 13)"

definition skipWs :: "jsstring \<Rightarrow> jsstring" where
  "skipWs s = dropWhile isJsonWs s"

text \<open>
  The characters of a string literal after the opening quote, up to the closing quote.
  \<open>None\<close> is a \<open>SyntaxError\<close>.
\<close>

definition unescape :: "cu \<Rightarrow> cu option" where
  "unescape c =
     (if c = 34 then Some 34 else if c = 92 then Some 92 else if c = 47 then Some 47
      else if c = 98 then Some 8 else if c = 102 then Some 12 else if c = 110 then Some 10
      else if c = 114 then Some 13 else if c = 116 then Some 9 else None)"

definition unhex4 :: "cu \<Rightarrow> cu \<Rightarrow> cu \<Rightarrow> cu \<Rightarrow> cu option" where
  "unhex4 a b c d =
     (case (unhex a, unhex b, unhex c, unhex d) of
        (Some w, Some x, Some y, Some z) \<Rightarrow> Some (of_nat (w * 4096 + x * 256 + y * 16 + z))
      | _ \<Rightarrow> None)"

fun parseString :: "jsstring \<Rightarrow> (jsstring \<times> jsstring) option" where
  "parseString [] = None"
| "parseString (c # r) =
     (if c = 34 then Some ([], r)
      else if c = 92 then
        (case r of
           [] \<Rightarrow> None
         | e # r1 \<Rightarrow>
             if e = 117 then
               (case r1 of
                  a # b # c # d # r2 \<Rightarrow>
                    (case unhex4 a b c d of
                       None \<Rightarrow> None
                     | Some u \<Rightarrow> (case parseString r2 of None \<Rightarrow> None
                                  | Some (s, rest) \<Rightarrow> Some (u # s, rest)))
                | _ \<Rightarrow> None)
             else
               (case unescape e of
                  None \<Rightarrow> None
                | Some u \<Rightarrow> (case parseString r1 of None \<Rightarrow> None
                             | Some (s, rest) \<Rightarrow> Some (u # s, rest))))
      else if unat c < 32 then None
      else (case parseString r of None \<Rightarrow> None | Some (s, rest) \<Rightarrow> Some (c # s, rest)))"

definition startsWith :: "jsstring \<Rightarrow> jsstring \<Rightarrow> bool" where
  "startsWith s p = (take (length p) s = p)"

text \<open>
  The parser takes fuel for its recursion: every call reads at least one character before
  it calls again, so the length of the text is enough.
\<close>

fun parseValue :: "nat \<Rightarrow> jsstring \<Rightarrow> (json \<times> jsstring) option"
and parseElements :: "nat \<Rightarrow> json list \<Rightarrow> jsstring \<Rightarrow> (json \<times> jsstring) option"
and parseMembers :: "nat \<Rightarrow> (jsstring \<times> json) list \<Rightarrow> jsstring \<Rightarrow> (json \<times> jsstring) option" where
  "parseValue 0 s = None"
| "parseValue (Suc n) s =
     (case skipWs s of
        [] \<Rightarrow> None
      | c # r \<Rightarrow>
          if c = 34 then (case parseString r of None \<Rightarrow> None | Some (x, rest) \<Rightarrow> Some (JString x, rest))
          else if c = 91 then
            (case skipWs r of
               [] \<Rightarrow> None
             | d # r1 \<Rightarrow> if d = 93 then Some (JArray [], r1) else parseElements n [] r)
          else if c = 123 then
            (case skipWs r of
               [] \<Rightarrow> None
             | d # r1 \<Rightarrow> if d = 125 then Some (JObject [], r1) else parseMembers n [] r)
          else if startsWith (c # r) (str ''null'') then Some (JNull, drop 4 (c # r))
          else if startsWith (c # r) (str ''true'') then Some (JBool True, drop 4 (c # r))
          else if startsWith (c # r) (str ''false'') then Some (JBool False, drop 5 (c # r))
          else None)"
| "parseElements 0 acc s = None"
| "parseElements (Suc n) acc s =
     (case parseValue n s of
        None \<Rightarrow> None
      | Some (v, r) \<Rightarrow>
          (case skipWs r of
             [] \<Rightarrow> None
           | c # r1 \<Rightarrow>
               if c = 44 then parseElements n (acc @ [v]) r1
               else if c = 93 then Some (JArray (acc @ [v]), r1)
               else None))"
| "parseMembers 0 acc s = None"
| "parseMembers (Suc n) acc s =
     (case skipWs s of
        [] \<Rightarrow> None
      | q # r \<Rightarrow>
          if q \<noteq> 34 then None
          else
            (case parseString r of
               None \<Rightarrow> None
             | Some (k, r1) \<Rightarrow>
                 (case skipWs r1 of
                    [] \<Rightarrow> None
                  | c # r2 \<Rightarrow>
                      if c \<noteq> 58 then None
                      else
                        (case parseValue n r2 of
                           None \<Rightarrow> None
                         | Some (v, r3) \<Rightarrow>
                             (case skipWs r3 of
                                [] \<Rightarrow> None
                              | e # r4 \<Rightarrow>
                                  if e = 44 then parseMembers n (acc @ [(k, v)]) r4
                                  else if e = 125 then Some (JObject (acc @ [(k, v)]), r4)
                                  else None)))))"

definition JSON_parse :: "jsstring \<Rightarrow> json option" where
  "JSON_parse s =
     (case parseValue (Suc (length s)) s of
        None \<Rightarrow> None
      | Some (v, rest) \<Rightarrow> if skipWs rest = [] then Some v else None)"

subsection \<open>\<open>encodeURIComponent\<close> and \<open>decodeURIComponent\<close>\<close>

definition unreserved :: "cu \<Rightarrow> bool" where
  "unreserved c =
     (let n = unat c in
      (65 \<le> n \<and> n \<le> 90) \<or> (97 \<le> n \<and> n \<le> 122) \<or> (48 \<le> n \<and> n \<le> 57)
      \<or> n = 45 \<or> n = 95 \<or> n = 46 \<or> n = 33 \<or> n = 126 \<or> n = 42 \<or> n = 39 \<or> n = 40 \<or> n = 41)"

definition pct :: "nat \<Rightarrow> jsstring" where
  "pct b = [37, hexDigit True (b div 16), hexDigit True (b mod 16)]"

definition utf8 :: "nat \<Rightarrow> nat list" where
  "utf8 cp =
     (if cp < 0x80 then [cp]
      else if cp < 0x800 then [0xC0 + cp div 64, 0x80 + cp mod 64]
      else if cp < 0x10000 then [0xE0 + cp div 4096, 0x80 + cp div 64 mod 64, 0x80 + cp mod 64]
      else [0xF0 + cp div 262144, 0x80 + cp div 4096 mod 64, 0x80 + cp div 64 mod 64,
            0x80 + cp mod 64])"

definition pctAll :: "nat \<Rightarrow> jsstring" where
  "pctAll cp = concat (map pct (utf8 cp))"

definition pairPoint :: "cu \<Rightarrow> cu \<Rightarrow> nat" where
  "pairPoint c d = 0x10000 + (unat c - 0xD800) * 1024 + (unat d - 0xDC00)"

text \<open>\<open>None\<close> is a \<open>URIError\<close>: the string has a lone surrogate.\<close>

fun encodeURIComponent :: "jsstring \<Rightarrow> jsstring option" where
  "encodeURIComponent [] = Some []"
| "encodeURIComponent (c # r) =
     (if unreserved c then map_option (\<lambda>t. c # t) (encodeURIComponent r)
      else if isLow c then None
      else if isHigh c then
        (case r of
           [] \<Rightarrow> None
         | d # r1 \<Rightarrow>
             if isLow d then map_option (\<lambda>t. pctAll (pairPoint c d) @ t) (encodeURIComponent r1)
             else None)
      else map_option (\<lambda>t. pctAll (unat c) @ t) (encodeURIComponent r))"

fun pctByte :: "jsstring \<Rightarrow> (nat \<times> jsstring) option" where
  "pctByte (p # h # l # r) =
     (if p = 37 then
        (case (unhex h, unhex l) of (Some a, Some b) \<Rightarrow> Some (16 * a + b, r) | _ \<Rightarrow> None)
      else None)"
| "pctByte _ = None"

text \<open>The \<open>k\<close> continuation bytes \<open>%XX\<close> of a multi-byte sequence.\<close>

fun contBytes :: "nat \<Rightarrow> jsstring \<Rightarrow> (nat list \<times> jsstring) option" where
  "contBytes 0 s = Some ([], s)"
| "contBytes (Suc k) s =
     (case pctByte s of
        None \<Rightarrow> None
      | Some (b, r) \<Rightarrow>
          if 0x80 \<le> b \<and> b < 0xC0 then
            (case contBytes k r of None \<Rightarrow> None | Some (bs, r1) \<Rightarrow> Some (b # bs, r1))
          else None)"

text \<open>
  The code point of a UTF-8 sequence; \<open>None\<close> when the sequence is overlong, encodes a
  surrogate or lies beyond \<open>0x10FFFF\<close>.
\<close>

fun utf8Point :: "nat list \<Rightarrow> nat option" where
  "utf8Point [a, b] =
     (let cp = (a mod 32) * 64 + b mod 64 in if 0x80 \<le> cp then Some cp else None)"
| "utf8Point [a, b, c] =
     (let cp = (a mod 16) * 4096 + (b mod 64) * 64 + c mod 64
      in if 0x800 \<le> cp \<and> \<not> (0xD800 \<le> cp \<and> cp \<le> 0xDFFF) then Some cp else None)"
| "utf8Point [a, b, c, d] =
     (let cp = (a mod 8) * 262144 + (b mod 64) * 4096 + (c mod 64) * 64 + d mod 64
      in if 0x10000 \<le> cp \<and> cp \<le> 0x10FFFF then Some cp else None)"
| "utf8Point _ = None"

definition utf16 :: "nat \<Rightarrow> jsstring" where
  "utf16 cp =
     (if cp < 0x10000 then [of_nat cp]
      else [of_nat (0xD800 + (cp - 0x10000) div 1024), of_nat (0xDC00 + (cp - 0x10000) mod 1024)])"

function decodeURIComponent :: "jsstring \<Rightarrow> jsstring option" where
  "decodeURIComponent [] = Some []"
| "decodeURIComponent (c # r) =
     (if c \<noteq> 37 then map_option (\<lambda>t. c # t) (decodeURIComponent r)
      else
        (case pctByte (c # r) of
           None \<Rightarrow> None
         | Some (b, r1) \<Rightarrow>
             if b < 0x80 then map_option (\<lambda>t. of_nat b # t) (decodeURIComponent r1)
             else if b < 0xC0 \<or> 0xF8 \<le> b then None
             else
               (case contBytes (if b < 0xE0 then 1 else if b < 0xF0 then 2 else 3) r1 of
                  None \<Rightarrow> None
                | Some (bs, r2) \<Rightarrow>
                    (case utf8Point (b # bs) of
                       None \<Rightarrow> None
                     | Some cp \<Rightarrow> map_option (\<lambda>t. utf16 cp @ t) (decodeURIComponent r2)))))"
  by pat_completeness auto
termination
proof (relation "measure length")
  have ps: "length r < length s" if "pctByte s = Some (b, r)" for s b r
    using that by (induction s rule: pctByte.induct) (auto split: if_splits option.splits)
  have cs: "length r \<le> length s" if "contBytes k s = Some (bs, r)" for k s bs r
    using that
  proof (induction k arbitrary: s bs r)
    case 0
    then show ?case by simp
  next
    case (Suc k)
    then show ?case
      by (fastforce split: option.splits if_splits dest: ps)
  qed
  show "wf (measure length)" by simp
  show "(r, c # r) \<in> measure length" for c :: cu and r by simp
  show "(y, c # r) \<in> measure length"
    if "pctByte (c # r) = Some x2" "(x, y) = x2" for c :: cu and r x2 x y
  proof -
    from that have "pctByte (c # r) = Some (x, y)" by simp
    from ps[OF this] show ?thesis by simp
  qed
  show "(ya, c # r) \<in> measure length"
    if "pctByte (c # r) = Some x2" "(x, y) = x2"
       "contBytes (if x < 0xE0 then 1 else if x < 0xF0 then 2 else 3) y = Some x2a" "(xa, ya) = x2a"
    for c :: cu and r x2 x y x2a xa ya
  proof -
    from that have a: "pctByte (c # r) = Some (x, y)"
      and b: "contBytes (if x < 0xE0 then 1 else if x < 0xF0 then 2 else 3) y = Some (xa, ya)"
      by simp_all
    from ps[OF a] cs[OF b] show ?thesis by simp
  qed
qed

subsection \<open>\<open>btoa\<close> and \<open>atob\<close>\<close>

definition b64char :: "nat \<Rightarrow> cu" where
  "b64char v =
     of_nat (if v < 26 then 65 + v else if v < 52 then 71 + v else if v < 62 then v - 4
             else if v = 62 then 43 else 47)"

definition b64val :: "cu \<Rightarrow> nat option" where
  "b64val c =
     (let n = unat c in
      if 65 \<le> n \<and> n \<le> 90 then Some (n - 65)
      else if 97 \<le> n \<and> n \<le> 122 then Some (n - 71)
      else if 48 \<le> n \<and> n \<le> 57 then Some (n + 4)
      else if n = 43 then Some 62
      else if n = 47 then Some 63
      else None)"

fun sextets :: "nat list \<Rightarrow> nat list" where
  "sextets (a # b # c # r) =
     [a div 4, (a mod 4) * 16 + b div 16, (b mod 16) * 4 + c div 64, c mod 64] @ sextets r"
| "sextets [a, b] = [a div 4, (a mod 4) * 16 + b div 16, (b mod 16) * 4]"
| "sextets [a] = [a div 4, (a mod 4) * 16]"
| "sextets [] = []"

text \<open>
  \<open>btoa\<close> throws (\<open>None\<close>) on a code unit above \<open>0xFF\<close>; the output is padded with
  \<open>=\<close> to a multiple of four characters.
\<close>

definition btoa :: "jsstring \<Rightarrow> jsstring option" where
  "btoa s =
     (if list_all (\<lambda>c. unat c < 256) s
      then Some (map b64char (sextets (map unat s))
                 @ replicate ((3 - length s mod 3) mod 3) 61)
      else None)"

fun octets :: "nat list \<Rightarrow> nat list" where
  "octets (a # b # c # d # r) =
     [a * 4 + b div 16, (b mod 16) * 16 + c div 4, (c mod 4) * 64 + d] @ octets r"
| "octets [a, b, c] = [a * 4 + b div 16, (b mod 16) * 16 + c div 4]"
| "octets [a, b] = [a * 4 + b div 16]"
| "octets _ = []"

definition isAsciiWs :: "cu \<Rightarrow> bool" where
  "isAsciiWs c = (c = 9 \<or> c = 10 \<or> c = 12 \<or> c = 13 \<or> c = 32)"

definition stripPadding :: "jsstring \<Rightarrow> jsstring" where
  "stripPadding d =
     (if length d mod 4 = 0 \<and> d \<noteq> [] \<and> last d = 61
      then (if butlast d \<noteq> [] \<and> last (butlast d) = 61 then butlast (butlast d) else butlast d)
      else d)"

fun allValues :: "jsstring \<Rightarrow> nat list option" where
  "allValues [] = Some []"
| "allValues (c # r) =
     (case b64val c of
        None \<Rightarrow> None
      | Some v \<Rightarrow> (case allValues r of None \<Rightarrow> None | Some vs \<Rightarrow> Some (v # vs)))"

text \<open>
  \<open>atob\<close> is the forgiving base64 decoding of the HTML standard: white space is dropped,
  then the padding; a length of \<open>1\<close> modulo \<open>4\<close> and a character outside the alphabet make
  it throw (\<open>None\<close>).
\<close>

definition atob :: "jsstring \<Rightarrow> jsstring option" where
  "atob s =
     (let d = stripPadding (filter (\<lambda>c. \<not> isAsciiWs c) s) in
      if length d mod 4 = 1 then None
      else (case allValues d of None \<Rightarrow> None | Some vs \<Rightarrow> Some (map of_nat (octets vs))))"

subsection \<open>Sharing a collection (\<open>generateShareLink\<close>)\<close>

definition typeName :: "ItemType \<Rightarrow> jsstring" where
  "typeName t = (case t of BOOK \<Rightarrow> str ''BOOK'' | MOVIE \<Rightarrow> str ''MOVIE'' | GAME \<Rightarrow> str ''GAME'')"

definition sharedItemOf :: "MediaItem \<Rightarrow> SharedItem" where
  "sharedItemOf item =
     \<lparr>shTitle = Some (title item), shType = Some (itemType item), shCreator = Some (creator item),
      shYear = Some (year item), shDescription = Some (description item),
      shCoverUrl = coverUrl item\<rparr>"

definition sharePayload :: "bool \<Rightarrow> AppState \<Rightarrow> UserCollection \<Rightarrow> SharedCollectionPayload" where
  "sharePayload isPublic st col =
     \<lparr>plTitle = colTitle col,
      plType = colType col,
      plSharer = (if isPublic then None
                  else Some (if trim (sharerNameInput st) = [] then str ''A Friend''
                             else trim (sharerNameInput st))),
      plItems = map sharedItemOf (filter (\<lambda>i. colId col \<in> set (collectionIds i)) (items st))\<rparr>"

text \<open>
  The object that \<open>JSON.stringify\<close> sees: the properties in the order of the object
  literal, a property whose value is \<open>undefined\<close> left out.
\<close>

definition optField :: "string \<Rightarrow> jsstring option \<Rightarrow> (jsstring \<times> json) list" where
  "optField k v = (case v of None \<Rightarrow> [] | Some x \<Rightarrow> [(str k, JString x)])"

definition sharedItemJson :: "SharedItem \<Rightarrow> json" where
  "sharedItemJson sh =
     JObject (optField ''title'' (shTitle sh) @ optField ''type'' (map_option typeName (shType sh))
              @ optField ''creator'' (shCreator sh) @ optField ''year'' (shYear sh)
              @ optField ''description'' (shDescription sh) @ optField ''coverUrl'' (shCoverUrl sh))"

definition payloadJson :: "SharedCollectionPayload \<Rightarrow> json" where
  "payloadJson p =
     JObject ([(str ''title'', JString (plTitle p)), (str ''type'', JString (typeName (plType p)))]
              @ optField ''sharer'' (plSharer p)
              @ [(str ''items'', JArray (map sharedItemJson (plItems p)))])"

definition encodeShare :: "json \<Rightarrow> jsstring option" where
  "encodeShare v =
     (case encodeURIComponent (JSON_stringify v) of None \<Rightarrow> None | Some e \<Rightarrow> btoa e)"

text \<open>
  \<open>generateShareLink\<close> returns the text it writes to the clipboard and the state after
  the write; \<open>origin\<close> and \<open>pathname\<close> are those of \<open>window.location\<close>.
\<close>

datatype ShareResult = NothingToShare | ShareThrew | Copied jsstring

definition generateShareLink ::
  "jsstring \<Rightarrow> jsstring \<Rightarrow> bool \<Rightarrow> AppState \<Rightarrow> ShareResult \<times> AppState" where
  "generateShareLink origin pathname isPublic st =
     (case sharingCollection st of
        None \<Rightarrow> (NothingToShare, st)
      | Some col \<Rightarrow>
          (case encodeShare (payloadJson (sharePayload isPublic st col)) of
             None \<Rightarrow> (ShareThrew, st)
           | Some encoded \<Rightarrow>
               (Copied (origin @ pathname @ str ''?share='' @ encoded),
                (showToast (str ''Link to '' @ [34] @ colTitle col @ [34] @ str '' copied!'') Success st)
                  \<lparr>sharingCollection := None\<rparr>)))"

subsection \<open>Decoding a share (\<open>handlePreviewLink\<close>)\<close>

definition decodeShare :: "jsstring \<Rightarrow> json option" where
  "decodeShare token =
     (case atob token of
        None \<Rightarrow> None
      | Some a \<Rightarrow> (case decodeURIComponent a of None \<Rightarrow> None | Some d \<Rightarrow> JSON_parse d))"

definition includesStr :: "jsstring \<Rightarrow> jsstring \<Rightarrow> bool" where
  "includesStr s p = list_ex (\<lambda>i. take (length p) (drop i s) = p) [0..<Suc (length s)]"

text \<open>
  \<open>s.split(p)\<close> has more than one part exactly when \<open>p\<close> occurs in \<open>s\<close>; its second part
  is the text between the first occurrence and the next one.
\<close>

fun afterFirst :: "jsstring \<Rightarrow> jsstring \<Rightarrow> jsstring option" where
  "afterFirst p [] = (if p = [] then Some [] else None)"
| "afterFirst p (c # r) =
     (if take (length p) (c # r) = p then Some (drop (length p) (c # r)) else afterFirst p r)"

fun beforeFirst :: "jsstring \<Rightarrow> jsstring \<Rightarrow> jsstring" where
  "beforeFirst p [] = []"
| "beforeFirst p (c # r) =
     (if take (length p) (c # r) = p then [] else c # beforeFirst p r)"

definition splitSecond :: "jsstring \<Rightarrow> jsstring \<Rightarrow> jsstring option" where
  "splitSecond s p = map_option (beforeFirst p) (afterFirst p s)"

text \<open>
  What \<open>handlePreviewLink\<close> does with the text of the import field: nothing, a preview
  of the parsed collection, a pending edit of the parsed item, or the error message.
  \<open>searchParam url key\<close> stands for \<open>new URL(url).searchParams.get(key)\<close>: \<open>None\<close> when
  the constructor throws, \<open>Some None\<close> for \<open>null\<close>.
\<close>

datatype PreviewOutcome = NoInput | ImportPreview json | PendingEdit json | InvalidLink

definition previewOf :: "jsstring \<Rightarrow> PreviewOutcome" where
  "previewOf payloadString =
     (case decodeShare payloadString of None \<Rightarrow> InvalidLink | Some payload \<Rightarrow> ImportPreview payload)"

definition editOf :: "jsstring \<Rightarrow> PreviewOutcome option" where
  "editOf param = map_option PendingEdit (decodeShare param)"

definition handlePreviewLink ::
  "(jsstring \<Rightarrow> jsstring \<Rightarrow> jsstring option option) \<Rightarrow> AppState \<Rightarrow> PreviewOutcome" where
  "handlePreviewLink searchParam st =
     (let payloadString = trim (importInputValue st) in
      if payloadString = [] then NoInput
      else if includesStr payloadString (str ''share='') then
        (case searchParam payloadString (str ''share'') of
           Some shareParam \<Rightarrow>
             (case shareParam of
                Some v \<Rightarrow> if v = [] then previewOf payloadString else previewOf v
              | None \<Rightarrow> previewOf payloadString)
         | None \<Rightarrow>
             (case splitSecond payloadString (str ''share='') of
                Some part \<Rightarrow> previewOf part
              | None \<Rightarrow> previewOf payloadString))
      else if includesStr payloadString (str ''editItem='') then
        (let viaSplit =
               (case splitSecond payloadString (str ''editItem='') of
                  Some part \<Rightarrow> (case editOf part of Some r \<Rightarrow> r | None \<Rightarrow> InvalidLink)
                | None \<Rightarrow> previewOf payloadString)
         in case searchParam payloadString (str ''editItem'') of
              Some editParam \<Rightarrow>
                (case editParam of
                   Some v \<Rightarrow> if v = [] then previewOf payloadString
                             else (case editOf v of Some r \<Rightarrow> r | None \<Rightarrow> viaSplit)
                 | None \<Rightarrow> previewOf payloadString)
            | None \<Rightarrow> viaSplit)
      else previewOf payloadString)"


section \<open>Example data\<close>

definition asciiLower :: "jsstring \<Rightarrow> jsstring" where
  "asciiLower s = map (\<lambda>c. if 65 \<le> unat c \<and> unat c \<le> 90 then c + 32 else c) s"

definition mkItem :: "string \<Rightarrow> string \<Rightarrow> string \<Rightarrow> ItemType \<Rightarrow> string list \<Rightarrow> MediaItem" where
  "mkItem i t c ty cids =
     \<lparr>itemId = str i, title = str t, originalTitle = None, itemType = ty, creator = str c,
      year = str ''1965'', description = [], status = COMPLETED, rating = Some 5, review = None,
      memories = [], addedAt = str ''2024-01-01T00:00:00.000Z'', collectionIds = map str cids,
      coverUrl = None, collaborators = None\<rparr>"

definition mkCol :: "string \<Rightarrow> string \<Rightarrow> ItemType \<Rightarrow> UserCollection" where
  "mkCol i t ty = \<lparr>colId = str i, colTitle = str t, colDescription = None, colType = ty,
                  createdAt = str ''2024-01-01T00:00:00.000Z''\<rparr>"

definition mkState :: "MediaItem list \<Rightarrow> UserCollection list \<Rightarrow> AppState" where
  "mkState is cs =
     \<lparr>items = is, userCollections = cs, toast = None, activeType = BOOK, view = LIBRARY,
      activeCollectionId = None, selectedItem = None, selectedIds = [], isSelectionMode = False,
      librarySelectionIds = [], isAddFromLibraryOpen = False, pendingShare = None,
      pendingEdit = None, importPreview = None, showImportInput = False,
      editCollectionTitle = [], editCollectionDesc = [], isEditingCollection = False,
      sortCriteria = DATE, sortOrder = DESC, sharingCollection = None, sharerNameInput = [],
      importInputValue = []\<rparr>"

definition exPayload :: SharedCollectionPayload where
  "exPayload = \<lparr>plTitle = str ''Favorites'', plType = BOOK, plSharer = None,
     plItems = [\<lparr>shTitle = Some (str ''Dune''), shType = Some BOOK, shCreator = Some (str ''Frank Herbert''),
                 shYear = Some (str ''1965''), shDescription = Some (str ''...''), shCoverUrl = None\<rparr>]\<rparr>"

definition exIds :: "nat \<Rightarrow> jsstring" where
  "exIds k = str ''id'' @ dec k"

text \<open>Identifiers for repeated imports: round \<open>r\<close> draws \<open>id\<close>\<open>r\<close>\<open>-\<close>\<open>k\<close>.\<close>

definition exRoundIds :: "nat \<Rightarrow> nat \<Rightarrow> jsstring" where
  "exRoundIds r k = str ''id'' @ dec r @ str ''-'' @ dec k"

definition exNows :: "nat \<Rightarrow> jsstring" where
  "exNows k = str ''2024-06-01T12:00:0'' @ dec k @ str ''.000Z''"

definition emma :: SharedItem where
  "emma = \<lparr>shTitle = Some (str ''Emma''), shType = Some BOOK, shCreator = Some (str ''Jane Austen''),
           shYear = Some (str ''1815''), shDescription = None, shCoverUrl = None\<rparr>"

definition exLibrary :: AppState where
  "exLibrary = mkState [mkItem ''1'' ''Dune'' ''Frank Herbert'' BOOK [''c1'']]
                       [mkCol ''c1'' ''favorites (imported)'' BOOK]"

text \<open>
  An instance of \<open>localeCompare\<close> for titles in ASCII letters: letters are compared
  without regard to case, and on a tie lower case comes first.
\<close>

definition exLocaleCompare :: "jsstring \<Rightarrow> jsstring \<Rightarrow> int" where
  "exLocaleCompare a b =
     (if asciiLower a < asciiLower b then - 1
      else if asciiLower b < asciiLower a then 1
      else if b < a then - 1
      else if a < b then 1 else 0)"

text \<open>
  The values of \<open>new Date(s).getTime()\<close> on the timestamps of the examples; the empty
  string, like any other text that is not a date, gives \<open>NaN\<close>.
\<close>

definition exGetTime :: "jsstring \<Rightarrow> int option" where
  "exGetTime s =
     (if s = str ''2024-01-01T00:00:00.000Z'' then Some 1704067200000
      else if s = str ''2024-01-02T00:00:00.000Z'' then Some 1704153600000
      else if s = str ''2024-01-03T00:00:00.000Z'' then Some 1704240000000
      else None)"

definition exItems :: "MediaItem list" where
  "exItems = [(mkItem ''1'' ''emma'' ''Jane Austen'' BOOK [])\<lparr>addedAt := str ''2024-01-02T00:00:00.000Z''\<rparr>,
              mkItem ''2'' ''Dune'' ''Frank Herbert'' BOOK [],
              (mkItem ''3'' ''Ulysses'' ''James Joyce'' BOOK [])\<lparr>addedAt := str ''2024-01-03T00:00:00.000Z'',
                                                                rating := None\<rparr>]"

section \<open>Library operations: proofs\<close>

lemma findIndex_Some:
  "findIndex P xs = Some k \<Longrightarrow> k < length xs \<and> P (xs ! k) \<and> (\<forall>j<k. \<not> P (xs ! j))"
proof (induction xs arbitrary: k)
  case Nil then show ?case by simp
next
  case (Cons x xs)
  show ?case
  proof (cases "P x")
    case True with Cons.prems show ?thesis by simp
  next
    case False
    with Cons.prems obtain k' where k': "findIndex P xs = Some k'" "k = Suc k'"
      by (auto split: option.splits)
    from Cons.IH[OF k'(1)] False k'(2) show ?thesis
      by (auto simp: less_Suc_eq_0_disj)
  qed
qed

lemma findIndex_None: "(findIndex P xs = None) = (\<forall>x\<in>set xs. \<not> P x)"
  by (induction xs) (auto split: option.splits)

lemma setAdd_distinct: "distinct s \<Longrightarrow> distinct (setAdd s x)"
  by (simp add: setAdd_def)

lemma set_setAdd: "set (setAdd s x) = insert x (set s)"
  by (auto simp: setAdd_def)

lemma foldl_setAdd: "distinct acc \<Longrightarrow> distinct (foldl setAdd acc xs) \<and> set (foldl setAdd acc xs) = set acc \<union> set xs"
  by (induction xs arbitrary: acc) (auto simp: setAdd_distinct set_setAdd)

lemma newSet_distinct: "distinct (newSet xs)"
  using foldl_setAdd[of "[]" xs] by (simp add: newSet_def)

lemma set_newSet: "set (newSet xs) = set xs"
  using foldl_setAdd[of "[]" xs] by (simp add: newSet_def)

lemma foldl_setAdd_id: "distinct xs \<Longrightarrow> set xs \<inter> set acc = {} \<Longrightarrow> foldl setAdd acc xs = acc @ xs"
  by (induction xs arbitrary: acc) (auto simp: setAdd_def)

lemma newSet_id: "distinct xs \<Longrightarrow> newSet xs = xs"
  using foldl_setAdd_id[of xs "[]"] by (simp add: newSet_def)

text \<open>
  \<^bold>\<open>C10.\<close>  The Remove action on a search result keeps exactly the library items
  that differ from the result in title, creator or type.  Every item that agrees in all
  three is dropped, however many there are: the number of items kept plus the number of
  agreeing items is the old number of items.  The test reads no other field of an item
  (identifier, membership, memories, status, rating), and the collections stay as they
  are.
\<close>

theorem remove_all:
  "items (handleRemoveFromSearch r st) =
     filter (\<lambda>i. \<not> (title i = srTitle r \<and> creator i = srCreator r \<and> itemType i = srType r)) (items st)
   \<and> length (items (handleRemoveFromSearch r st))
       + length (filter (\<lambda>i. title i = srTitle r \<and> creator i = srCreator r \<and> itemType i = srType r) (items st))
       = length (items st)
   \<and> userCollections (handleRemoveFromSearch r st) = userCollections st"
proof -
  have "length (filter (\<lambda>i. \<not> matchesResult r i) (items st)) + length (filter (matchesResult r) (items st))
        = length (items st)"
    using sum_length_filter_compl[of "matchesResult r" "items st"] by simp
  then show ?thesis
    unfolding handleRemoveFromSearch_def matchesResult_def by simp
qed

text \<open>
  \<^bold>\<open>C3.\<close>  Deleting a collection keeps every item, in the same order and with the
  same identifiers.  At every position the new membership list is the old one without the
  deleted identifier, the deleted identifier is no longer a member, and putting the old
  membership list back gives the old item: no other field has changed.  The collection
  list loses exactly the collections with that identifier.
\<close>

theorem delete_col:
  "map itemId (items (handleDeleteCollection cid st)) = map itemId (items st)
   \<and> length (items (handleDeleteCollection cid st)) = length (items st)
   \<and> (\<forall>k<length (items st).
         collectionIds (items (handleDeleteCollection cid st) ! k)
           = filter (\<lambda>i. i \<noteq> cid) (collectionIds (items st ! k))
         \<and> cid \<notin> set (collectionIds (items (handleDeleteCollection cid st) ! k))
         \<and> (items (handleDeleteCollection cid st) ! k)\<lparr>collectionIds := collectionIds (items st ! k)\<rparr>
             = items st ! k)
   \<and> userCollections (handleDeleteCollection cid st)
        = filter (\<lambda>c. colId c \<noteq> cid) (userCollections st)
   \<and> cid \<notin> colId ` set (userCollections (handleDeleteCollection cid st))"
  unfolding handleDeleteCollection_def by (auto simp: comp_def)

text \<open>
  \<^bold>\<open>C7.\<close>  Accepting a pending shared edit: when some item has the identifier of
  the payload's item, the first such position is overwritten and nothing else moves;
  otherwise the item is put in front of the list.  The stored item is the payload's item
  with a new collaborator list only.  That list has no duplicates, contains the sharer,
  and has the members of the payload's list plus the sharer.  Accepting again what was
  accepted, from the same sharer, stores the same item.
\<close>

theorem accept_edit:
  assumes "pendingEdit st = Some pe"
  shows "(case findIndex (\<lambda>i. itemId i = itemId (editItem pe)) (items st) of
            Some k \<Rightarrow> k < length (items st) \<and> itemId (items st ! k) = itemId (editItem pe)
                      \<and> items (handleAcceptEdit st) = (items st)[k := acceptedItem pe]
          | None \<Rightarrow> itemId (editItem pe) \<notin> itemId ` set (items st)
                      \<and> items (handleAcceptEdit st) = acceptedItem pe # items st)
         \<and> acceptedItem pe = (editItem pe)\<lparr>collaborators := collaborators (acceptedItem pe)\<rparr>
         \<and> (\<exists>cs. collaborators (acceptedItem pe) = Some cs \<and> distinct cs \<and> editSharer pe \<in> set cs
                 \<and> set cs = insert (editSharer pe)
                     (set (case collaborators (editItem pe) of Some l \<Rightarrow> l | None \<Rightarrow> [])))
         \<and> acceptedItem \<lparr>editItem = acceptedItem pe, editSharer = editSharer pe\<rparr> = acceptedItem pe"
proof -
  let ?P = "\<lambda>i. itemId i = itemId (editItem pe)"
  have A: "(case findIndex ?P (items st) of
            Some k \<Rightarrow> k < length (items st) \<and> itemId (items st ! k) = itemId (editItem pe)
                      \<and> items (handleAcceptEdit st) = (items st)[k := acceptedItem pe]
          | None \<Rightarrow> itemId (editItem pe) \<notin> itemId ` set (items st)
                      \<and> items (handleAcceptEdit st) = acceptedItem pe # items st)"
  proof (cases "findIndex ?P (items st)")
    case None
    then have "itemId (editItem pe) \<notin> itemId ` set (items st)"
      by (auto simp: findIndex_None)
    with None assms show ?thesis
      by (simp add: handleAcceptEdit_def showToast_def Let_def)
  next
    case (Some k)
    from findIndex_Some[OF Some] Some assms show ?thesis
      by (simp add: handleAcceptEdit_def showToast_def Let_def)
  qed
  have B: "acceptedItem pe = (editItem pe)\<lparr>collaborators := collaborators (acceptedItem pe)\<rparr>"
    by (simp add: acceptedItem_def)
  let ?old = "case collaborators (editItem pe) of Some l \<Rightarrow> l | None \<Rightarrow> []"
  let ?cs = "setAdd (newSet ?old) (editSharer pe)"
  have C1: "collaborators (acceptedItem pe) = Some ?cs" by (simp add: acceptedItem_def)
  have C2: "distinct ?cs" by (simp add: setAdd_distinct newSet_distinct)
  have C3: "set ?cs = insert (editSharer pe) (set ?old)" by (simp add: set_setAdd set_newSet)
  have D: "acceptedItem \<lparr>editItem = acceptedItem pe, editSharer = editSharer pe\<rparr> = acceptedItem pe"
  proof -
    have "newSet ?cs = ?cs" using C2 by (rule newSet_id)
    moreover have "setAdd ?cs (editSharer pe) = ?cs" using C3 by (simp add: setAdd_def)
    ultimately show ?thesis by (simp add: acceptedItem_def)
  qed
  from A B C1 C2 C3 D show ?thesis by blast
qed


text \<open>
  \<^bold>\<open>C2\<close> (amended).  Creating a collection returns no identifier exactly when the
  trimmed title is empty or a collection of the same type has a title equal to it after
  lower-casing.  When it returns none, the collections and the items are unchanged.  When
  it returns one, it is the generated identifier, a collection with it, the trimmed title,
  the description, the type and the timestamp is appended, and no message is shown.  The
  error message is shown in the duplicate case only: an empty title is refused silently.
\<close>

theorem create_collection:
  "(fst (handleCreateCollection lower uuid now t d ty st) = None)
      = (trim t = [] \<or> (\<exists>c\<in>set (userCollections st). colType c = ty \<and> lower (colTitle c) = lower (trim t)))
   \<and> (fst (handleCreateCollection lower uuid now t d ty st) = None \<longrightarrow>
        userCollections (snd (handleCreateCollection lower uuid now t d ty st)) = userCollections st
        \<and> items (snd (handleCreateCollection lower uuid now t d ty st)) = items st)
   \<and> (fst (handleCreateCollection lower uuid now t d ty st) \<noteq> None \<longrightarrow>
        fst (handleCreateCollection lower uuid now t d ty st) = Some uuid
        \<and> userCollections (snd (handleCreateCollection lower uuid now t d ty st))
           = userCollections st @ [\<lparr>colId = uuid, colTitle = trim t, colDescription = Some d,
                                     colType = ty, createdAt = now\<rparr>]
        \<and> toast (snd (handleCreateCollection lower uuid now t d ty st)) = toast st)
   \<and> toast (snd (handleCreateCollection lower uuid now t d ty st))
       = (if trim t \<noteq> [] \<and> (\<exists>c\<in>set (userCollections st). colType c = ty \<and> lower (colTitle c) = lower (trim t))
          then Some (str ''A collection with this name already exists.'', Error)
          else toast st)"
  by (auto simp add: handleCreateCollection_def titleTaken_def list_ex_iff showToast_def Let_def)

text \<open>
  A title that differs from an existing one in case and outer blanks is refused for the
  same type and accepted, trimmed, for another type.
\<close>

theorem create_collection_witness:
  "fst (handleCreateCollection asciiLower (str ''u1'') (str ''t1'') (str '' favorites '') [] BOOK
          (mkState [] [mkCol ''c1'' ''Favorites'' BOOK])) = None
   \<and> userCollections (snd (handleCreateCollection asciiLower (str ''u1'') (str ''t1'') (str '' favorites '') [] BOOK
          (mkState [] [mkCol ''c1'' ''Favorites'' BOOK]))) = [mkCol ''c1'' ''Favorites'' BOOK]
   \<and> fst (handleCreateCollection asciiLower (str ''u1'') (str ''t1'') (str '' favorites '') [] MOVIE
          (mkState [] [mkCol ''c1'' ''Favorites'' BOOK])) = Some (str ''u1'')
   \<and> map colTitle (userCollections (snd (handleCreateCollection asciiLower (str ''u1'') (str ''t1'') (str '' favorites '') [] MOVIE
          (mkState [] [mkCol ''c1'' ''Favorites'' BOOK])))) = [str ''Favorites'', str ''favorites'']"
  using create_collection [of asciiLower "str ''u1''" "str ''t1''" "str '' favorites ''" "[]" BOOK
          "mkState [] [mkCol ''c1'' ''Favorites'' BOOK]"]
        create_collection [of asciiLower "str ''u1''" "str ''t1''" "str '' favorites ''" "[]" MOVIE
          "mkState [] [mkCol ''c1'' ''Favorites'' BOOK]"]
  by (simp add: mkState_def mkCol_def trim_def str_def isWhiteSpace_def asciiLower_def Let_def)

text \<open>
  A blank title is refused, and no message is shown: the claim that every refusal
  surfaces an error fails here.
\<close>

theorem create_empty_title_silent:
  "trim (str ''  '') = []
   \<and> fst (handleCreateCollection asciiLower (str ''u1'') (str ''t1'') (str ''  '') [] BOOK (mkState [] [])) = None
   \<and> toast (snd (handleCreateCollection asciiLower (str ''u1'') (str ''t1'') (str ''  '') [] BOOK (mkState [] []))) = None"
  by (simp add: handleCreateCollection_def mkState_def trim_def str_def isWhiteSpace_def Let_def)

text \<open>
  Two books with the same title and creator, of different identifier, membership, status
  and rating, go in one Remove action; the film of the same title stays.
\<close>

theorem remove_all_witness:
  "map itemId (items (handleRemoveFromSearch
      \<lparr>srTitle = str ''Dune'', srType = BOOK, srCreator = str ''Frank Herbert'', srYear = [], srDescription = []\<rparr>
      (mkState [mkItem ''1'' ''Dune'' ''Frank Herbert'' BOOK [''c1''],
                mkItem ''2'' ''Dune'' ''Frank Herbert'' MOVIE [],
                (mkItem ''3'' ''Dune'' ''Frank Herbert'' BOOK [])\<lparr>status := WANT_TO, rating := None\<rparr>] [])))
   = [str ''2'']"
  using remove_all [of "\<lparr>srTitle = str ''Dune'', srType = BOOK, srCreator = str ''Frank Herbert'', srYear = [], srDescription = []\<rparr>"
     "mkState [mkItem ''1'' ''Dune'' ''Frank Herbert'' BOOK [''c1''],
                mkItem ''2'' ''Dune'' ''Frank Herbert'' MOVIE [],
                (mkItem ''3'' ''Dune'' ''Frank Herbert'' BOOK [])\<lparr>status := WANT_TO, rating := None\<rparr>] []"]
  by (simp add: mkState_def mkItem_def str_def)

text \<open>
  Three items belong to the collection, two of them to no other: all three stay, without
  the deleted identifier.
\<close>

theorem delete_col_witness:
  "length (items (mkState [mkItem ''1'' ''A'' ''x'' BOOK [''c1''], mkItem ''2'' ''B'' ''y'' BOOK [''c1''],
                mkItem ''3'' ''C'' ''z'' BOOK [''c2'', ''c1'']] [mkCol ''c1'' ''One'' BOOK, mkCol ''c2'' ''Two'' BOOK])) = 3
   \<and> map itemId (items (handleDeleteCollection (str ''c1'')
       (mkState [mkItem ''1'' ''A'' ''x'' BOOK [''c1''], mkItem ''2'' ''B'' ''y'' BOOK [''c1''],
                mkItem ''3'' ''C'' ''z'' BOOK [''c2'', ''c1'']] [mkCol ''c1'' ''One'' BOOK, mkCol ''c2'' ''Two'' BOOK])))
       = [str ''1'', str ''2'', str ''3'']
   \<and> map collectionIds (items (handleDeleteCollection (str ''c1'')
       (mkState [mkItem ''1'' ''A'' ''x'' BOOK [''c1''], mkItem ''2'' ''B'' ''y'' BOOK [''c1''],
                mkItem ''3'' ''C'' ''z'' BOOK [''c2'', ''c1'']] [mkCol ''c1'' ''One'' BOOK, mkCol ''c2'' ''Two'' BOOK])))
       = [[], [], [str ''c2'']]
   \<and> map colId (userCollections (handleDeleteCollection (str ''c1'')
       (mkState [mkItem ''1'' ''A'' ''x'' BOOK [''c1''], mkItem ''2'' ''B'' ''y'' BOOK [''c1''],
                mkItem ''3'' ''C'' ''z'' BOOK [''c2'', ''c1'']] [mkCol ''c1'' ''One'' BOOK, mkCol ''c2'' ''Two'' BOOK])))
       = [str ''c2'']"
  using delete_col [of "str ''c1''" "mkState [mkItem ''1'' ''A'' ''x'' BOOK [''c1''], mkItem ''2'' ''B'' ''y'' BOOK [''c1''],
                mkItem ''3'' ''C'' ''z'' BOOK [''c2'', ''c1'']] [mkCol ''c1'' ''One'' BOOK, mkCol ''c2'' ''Two'' BOOK]"]
  by (simp add: handleDeleteCollection_def mkState_def mkItem_def mkCol_def str_def)

text \<open>
  An edit of item 2 whose collaborator list names Ann twice and already names Bob, the
  sharer: item 2 is replaced in place and its collaborators are Ann and Bob.
\<close>

theorem accept_edit_witness:
  "pendingEdit ((mkState [mkItem ''1'' ''A'' ''x'' BOOK [], mkItem ''2'' ''B'' ''y'' BOOK []] [])
       \<lparr>pendingEdit := Some \<lparr>editItem = (mkItem ''2'' ''B2'' ''y'' BOOK [])\<lparr>collaborators := Some [str ''Ann'', str ''Bob'', str ''Ann'']\<rparr>,
                              editSharer = str ''Bob''\<rparr>\<rparr>)
     = Some \<lparr>editItem = (mkItem ''2'' ''B2'' ''y'' BOOK [])\<lparr>collaborators := Some [str ''Ann'', str ''Bob'', str ''Ann'']\<rparr>,
                              editSharer = str ''Bob''\<rparr>
   \<and> map title (items (handleAcceptEdit ((mkState [mkItem ''1'' ''A'' ''x'' BOOK [], mkItem ''2'' ''B'' ''y'' BOOK []] [])
       \<lparr>pendingEdit := Some \<lparr>editItem = (mkItem ''2'' ''B2'' ''y'' BOOK [])\<lparr>collaborators := Some [str ''Ann'', str ''Bob'', str ''Ann'']\<rparr>,
                              editSharer = str ''Bob''\<rparr>\<rparr>))) = [str ''A'', str ''B2'']
   \<and> map collaborators (items (handleAcceptEdit ((mkState [mkItem ''1'' ''A'' ''x'' BOOK [], mkItem ''2'' ''B'' ''y'' BOOK []] [])
       \<lparr>pendingEdit := Some \<lparr>editItem = (mkItem ''2'' ''B2'' ''y'' BOOK [])\<lparr>collaborators := Some [str ''Ann'', str ''Bob'', str ''Ann'']\<rparr>,
                              editSharer = str ''Bob''\<rparr>\<rparr>))) = [None, Some [str ''Ann'', str ''Bob'']]"
  using accept_edit [of "(mkState [mkItem ''1'' ''A'' ''x'' BOOK [], mkItem ''2'' ''B'' ''y'' BOOK []] [])
       \<lparr>pendingEdit := Some \<lparr>editItem = (mkItem ''2'' ''B2'' ''y'' BOOK [])\<lparr>collaborators := Some [str ''Ann'', str ''Bob'', str ''Ann'']\<rparr>,
                              editSharer = str ''Bob''\<rparr>\<rparr>"
       "\<lparr>editItem = (mkItem ''2'' ''B2'' ''y'' BOOK [])\<lparr>collaborators := Some [str ''Ann'', str ''Bob'', str ''Ann'']\<rparr>,
                              editSharer = str ''Bob''\<rparr>"]
  by (simp add: handleAcceptEdit_def acceptedItem_def newSet_def setAdd_def showToast_def mkState_def mkItem_def str_def Let_def)

section \<open>Importing a shared collection: proofs\<close>

lemma digit_val: "d < 10 \<Longrightarrow> unat (digit d) - 48 = d"
  by (simp only: digit_def unat_of_nat) simp

lemma decval_snoc: "decval (s @ [c]) = 10 * decval s + (unat c - 48)"
  by (simp add: decval_def)

lemma decval_dec: "decval (dec n) = n"
proof (induction n rule: dec.induct)
  case (1 n)
  show ?case
  proof (cases "n < 10")
    case True
    then show ?thesis by (subst dec.simps) (simp add: decval_def digit_val)
  next
    case False
    with 1 have "decval (dec (n div 10)) = n div 10" by simp
    with False show ?thesis
      by (subst dec.simps) (simp add: decval_snoc digit_val)
  qed
qed

lemma dec_inj: "dec j = dec k \<Longrightarrow> j = k"
  by (metis decval_dec)

lemma numbered_inj: "numbered b j = numbered b k \<Longrightarrow> j = k"
  by (auto simp: numbered_def dest: dec_inj)

lemma titleTaken_iff:
  "titleTaken lower cols ty t = (\<exists>c\<in>set cols. colType c = ty \<and> lower (colTitle c) = lower t)"
  by (simp add: titleTaken_def list_ex_iff)

lemma free_exists:
  assumes inj: "\<forall>j k. lower (numbered base j) = lower (numbered base k) \<longrightarrow> j = k"
  shows "\<exists>m\<ge>c. \<not> titleTaken lower cols ty (numbered base m)"
proof (rule ccontr)
  assume "\<not> ?thesis"
  then have all: "\<And>m. c \<le> m \<Longrightarrow> titleTaken lower cols ty (numbered base m)" by blast
  let ?f = "\<lambda>k. lower (numbered base k)"
  have "?f ` {c..} \<subseteq> (\<lambda>x. lower (colTitle x)) ` set cols"
  proof
    fix y assume "y \<in> ?f ` {c..}"
    then obtain m where m: "c \<le> m" "y = ?f m" by auto
    from all[OF m(1)] obtain x where "x \<in> set cols" "lower (colTitle x) = lower (numbered base m)"
      by (auto simp: titleTaken_iff)
    with m(2) show "y \<in> (\<lambda>x. lower (colTitle x)) ` set cols" by force
  qed
  then have "finite (?f ` {c..})" by (rule finite_subset) simp
  moreover have "inj_on ?f {c..}" using inj by (auto simp: inj_on_def)
  ultimately have "finite {c..}" by (rule finite_imageD)
  then show False by (simp add: infinite_Ici)
qed

lemma loop_reaches:
  assumes "\<not> titleTaken lower cols ty (numbered base m)" and "counter \<le> m"
  shows "\<exists>t. uniqueTitleLoop lower cols ty base cur counter = Some t
             \<and> \<not> titleTaken lower cols ty t
             \<and> (t = cur \<or>
                (titleTaken lower cols ty cur \<and>
                 (\<exists>k. counter \<le> k \<and> t = numbered base k
                      \<and> (\<forall>j. counter \<le> j \<and> j < k \<longrightarrow> titleTaken lower cols ty (numbered base j)))))"
  using assms
proof (induction "m - counter" arbitrary: cur counter)
  case 0
  then have cm: "counter = m" by simp
  show ?case
  proof (cases "titleTaken lower cols ty cur")
    case False
    then show ?thesis by (subst uniqueTitleLoop.simps) simp
  next
    case True
    have "uniqueTitleLoop lower cols ty base cur counter
            = uniqueTitleLoop lower cols ty base (numbered base m) (m + 1)"
      using True cm by (subst uniqueTitleLoop.simps) simp
    also have "\<dots> = Some (numbered base m)"
      using "0.prems"(1) by (subst uniqueTitleLoop.simps) simp
    finally show ?thesis using True "0.prems"(1) cm by auto
  qed
next
  case (Suc d)
  show ?case
  proof (cases "titleTaken lower cols ty cur")
    case False
    then show ?thesis by (subst uniqueTitleLoop.simps) simp
  next
    case True
    have step: "uniqueTitleLoop lower cols ty base cur counter
            = uniqueTitleLoop lower cols ty base (numbered base counter) (counter + 1)"
      using True by (subst uniqueTitleLoop.simps) simp
    from Suc.hyps(2) Suc.prems have "d = m - (counter + 1)" "counter + 1 \<le> m" by simp_all
    from Suc.hyps(1)[OF this(1) Suc.prems(1) this(2), of "numbered base counter"]
    obtain t where t: "uniqueTitleLoop lower cols ty base (numbered base counter) (counter + 1) = Some t"
        "\<not> titleTaken lower cols ty t"
        "t = numbered base counter \<or>
           (titleTaken lower cols ty (numbered base counter) \<and>
            (\<exists>k. counter + 1 \<le> k \<and> t = numbered base k
                \<and> (\<forall>j. counter + 1 \<le> j \<and> j < k \<longrightarrow> titleTaken lower cols ty (numbered base j))))"
      by blast
    from t(3) have "\<exists>k. counter \<le> k \<and> t = numbered base k
                      \<and> (\<forall>j. counter \<le> j \<and> j < k \<longrightarrow> titleTaken lower cols ty (numbered base j))"
    proof
      assume "t = numbered base counter"
      then show ?thesis by (intro exI[of _ counter]) auto
    next
      assume r: "titleTaken lower cols ty (numbered base counter) \<and>
            (\<exists>k. counter + 1 \<le> k \<and> t = numbered base k
                \<and> (\<forall>j. counter + 1 \<le> j \<and> j < k \<longrightarrow> titleTaken lower cols ty (numbered base j)))"
      then obtain k where k: "counter + 1 \<le> k" "t = numbered base k"
         "\<forall>j. counter + 1 \<le> j \<and> j < k \<longrightarrow> titleTaken lower cols ty (numbered base j)" by blast
      have "\<forall>j. counter \<le> j \<and> j < k \<longrightarrow> titleTaken lower cols ty (numbered base j)"
      proof (intro allI impI)
        fix j assume j: "counter \<le> j \<and> j < k"
        show "titleTaken lower cols ty (numbered base j)"
        proof (cases "j = counter")
          case True with r show ?thesis by simp
        next
          case False with j k(3) show ?thesis by simp
        qed
      qed
      with k show ?thesis by (intro exI[of _ k]) simp
    qed
    with step t(1,2) True show ?thesis by simp
  qed
qed

lemma loop_total:
  assumes inj: "\<forall>j k. lower (numbered base j) = lower (numbered base k) \<longrightarrow> j = k"
  shows "\<exists>t. uniqueTitleLoop lower cols ty base base 1 = Some t
             \<and> \<not> titleTaken lower cols ty t
             \<and> (t = base \<or>
                (titleTaken lower cols ty base \<and>
                 (\<exists>k\<ge>1. t = numbered base k
                      \<and> (\<forall>j. 1 \<le> j \<and> j < k \<longrightarrow> titleTaken lower cols ty (numbered base j)))))"
proof -
  from free_exists[OF inj, of 1 cols ty] obtain m where "1 \<le> m" "\<not> titleTaken lower cols ty (numbered base m)"
    by blast
  from loop_reaches[OF this(2) this(1), of base] show ?thesis by blast
qed

lemma uniqueTitles_snoc:
  "uniqueTitles lower (cs @ [c]) = (uniqueTitles lower cs \<and> \<not> titleTaken lower cs (colType c) (colTitle c))"
  by (induction cs) (auto simp: titleTaken_iff)

lemma uniqueTitles_nth:
  "uniqueTitles lower cs =
     (\<forall>i<length cs. \<forall>j<length cs. i \<noteq> j \<and> colType (cs ! i) = colType (cs ! j)
         \<longrightarrow> lower (colTitle (cs ! i)) \<noteq> lower (colTitle (cs ! j)))"
proof (induction cs)
  case Nil show ?case by simp
next
  case (Cons c cs)
  show ?case (is "?L = ?R")
  proof
    assume L: ?L
    then have nt: "\<not> titleTaken lower cs (colType c) (colTitle c)" and u: "uniqueTitles lower cs" by simp_all
    show ?R
    proof (intro allI impI)
      fix i j assume i: "i < length (c # cs)" and j: "j < length (c # cs)"
        and ij: "i \<noteq> j \<and> colType ((c # cs) ! i) = colType ((c # cs) ! j)"
      show "lower (colTitle ((c # cs) ! i)) \<noteq> lower (colTitle ((c # cs) ! j))"
      proof (cases i)
        case 0
        with ij obtain j' where j': "j = Suc j'" by (cases j) auto
        with j have "cs ! j' \<in> set cs" by simp
        with nt 0 j' ij show ?thesis by (auto simp: titleTaken_iff)
      next
        case (Suc i')
        show ?thesis
        proof (cases j)
          case 0
          from Suc i have "cs ! i' \<in> set cs" by simp
          with nt 0 Suc ij show ?thesis by (auto simp: titleTaken_iff)
        next
          case (Suc j')
          with \<open>i = Suc i'\<close> i j ij u Cons.IH show ?thesis by auto
        qed
      qed
    qed
  next
    assume R: ?R
    have "\<not> titleTaken lower cs (colType c) (colTitle c)"
    proof
      assume "titleTaken lower cs (colType c) (colTitle c)"
      then obtain x where "x \<in> set cs" "colType x = colType c" "lower (colTitle x) = lower (colTitle c)"
        by (auto simp: titleTaken_iff)
      then obtain k where "k < length cs" "cs ! k = x" by (auto simp: in_set_conv_nth)
      with R[rule_format, of "Suc k" 0] \<open>colType x = colType c\<close> \<open>lower (colTitle x) = lower (colTitle c)\<close>
      show False by simp
    qed
    moreover have "uniqueTitles lower cs"
      unfolding Cons.IH
    proof (intro allI impI)
      fix i j assume "i < length cs" "j < length cs" "i \<noteq> j \<and> colType (cs ! i) = colType (cs ! j)"
      with R[rule_format, of "Suc i" "Suc j"] show "lower (colTitle (cs ! i)) \<noteq> lower (colTitle (cs ! j))"
        by simp
    qed
    ultimately show ?L by simp
  qed
qed

lemma dropWhile_hd_id: "xs \<noteq> [] \<Longrightarrow> \<not> P (hd xs) \<Longrightarrow> dropWhile P xs = xs"
  by (cases xs) auto

lemma trim_noop:
  assumes "s \<noteq> []" "\<not> isWhiteSpace (hd s)" "\<not> isWhiteSpace (last s)"
  shows "trim s = s"
proof -
  have 1: "dropWhile isWhiteSpace s = s" using assms by (simp add: dropWhile_hd_id)
  have "rev s \<noteq> []" "\<not> isWhiteSpace (hd (rev s))" using assms by (simp_all add: hd_rev)
  then have 2: "dropWhile isWhiteSpace (rev s) = rev s" by (rule dropWhile_hd_id)
  show ?thesis by (simp add: trim_def 1 2)
qed

lemma paren_not_ws: "\<not> isWhiteSpace (last (str '')''))"
  by (simp add: str_def isWhiteSpace_def)

lemma last_importSuffix: "last (importSuffix sh) = last (str '')'')"
  by (auto simp: importSuffix_def str_def split: option.splits)

lemma importSuffix_ne: "importSuffix sh \<noteq> []"
  by (auto simp: importSuffix_def str_def split: option.splits)

lemma trim_base:
  assumes "plTitle payload \<noteq> []" "\<not> isWhiteSpace (hd (plTitle payload))"
  shows "trim (importBaseTitle payload) = importBaseTitle payload"
proof (rule trim_noop)
  show "importBaseTitle payload \<noteq> []" using assms by (simp add: importBaseTitle_def)
  show "\<not> isWhiteSpace (hd (importBaseTitle payload))" using assms by (simp add: importBaseTitle_def)
  have "last (importBaseTitle payload) = last (importSuffix (plSharer payload))"
    using importSuffix_ne by (simp add: importBaseTitle_def)
  then show "\<not> isWhiteSpace (last (importBaseTitle payload))"
    using paren_not_ws by (simp add: last_importSuffix)
qed

lemma trim_numbered:
  assumes "b \<noteq> []" "\<not> isWhiteSpace (hd b)"
  shows "trim (numbered b k) = numbered b k"
proof (rule trim_noop)
  show "numbered b k \<noteq> []" using assms by (simp add: numbered_def)
  show "\<not> isWhiteSpace (hd (numbered b k))" using assms by (simp add: numbered_def)
  have "last (numbered b k) = last (str '')'')" by (simp add: numbered_def str_def)
  then show "\<not> isWhiteSpace (last (numbered b k))" using paren_not_ws by simp
qed

lemma trim_ne:
  assumes "s \<noteq> []" "\<not> isWhiteSpace (last s)"
  shows "trim s \<noteq> []"
proof -
  have "\<exists>x\<in>set s. \<not> isWhiteSpace x" using assms last_in_set by blast
  then have d: "dropWhile isWhiteSpace s \<noteq> []" by (simp add: dropWhile_eq_Nil_conv)
  obtain ys where ys: "s = takeWhile isWhiteSpace s @ dropWhile isWhiteSpace s" by simp
  have "last (dropWhile isWhiteSpace s) = last s" using d ys by (metis last_appendR)
  then have "\<not> isWhiteSpace (hd (rev (dropWhile isWhiteSpace s)))" using assms d by (simp add: hd_rev)
  then have "dropWhile isWhiteSpace (rev (dropWhile isWhiteSpace s)) = rev (dropWhile isWhiteSpace s)"
    using d by (simp add: dropWhile_hd_id)
  with d show ?thesis by (simp add: trim_def)
qed

lemma importItems_userCollections:
  "userCollections (snd (importItems snap ids nows cid pty shs (acc, st))) = userCollections st"
  by (induction shs arbitrary: acc st)
     (auto simp: handleItemCollectionUpdate_def split: option.splits)

lemma finishImport_userCollections:
  "userCollections (finishImport cid r) = userCollections (snd r)"
  by (cases r) (simp add: finishImport_def showToast_def)

lemma finishImport_items:
  "items (finishImport cid r) = fst r @ items (snd r)"
  by (cases r) (simp add: finishImport_def showToast_def)

text \<open>What one import does to the collection list.\<close>

lemma import_step:
  assumes inj: "\<forall>j k. lower (numbered (importBaseTitle payload) j) = lower (numbered (importBaseTitle payload) k) \<longrightarrow> j = k"
  shows "\<exists>st' t. handleImportCollection lower ids nows payload st = Some st'
           \<and> uniqueTitleLoop lower (userCollections st) (plType payload)
                 (importBaseTitle payload) (importBaseTitle payload) 1 = Some t
           \<and> (if titleTaken lower (userCollections st) (plType payload) (trim t)
               then userCollections st' = userCollections st
               else userCollections st' = userCollections st @
                      [\<lparr>colId = ids 0, colTitle = trim t, colDescription = Some [],
                        colType = plType payload, createdAt = nows 0\<rparr>])"
proof -
  let ?b = "importBaseTitle payload"
  from loop_total[OF inj, of "userCollections st" "plType payload"]
  obtain t where t: "uniqueTitleLoop lower (userCollections st) (plType payload) ?b ?b 1 = Some t"
    and tf: "t = ?b \<or> (\<exists>k\<ge>1. t = numbered ?b k)" by blast
  have "?b \<noteq> []" by (simp add: importBaseTitle_def str_def)
  moreover have "last ?b = last (str '')'')"
    using importSuffix_ne by (simp add: importBaseTitle_def last_importSuffix)
  moreover have "\<And>k. last (numbered ?b k) = last (str '')'')" by (simp add: numbered_def str_def)
  moreover have "\<And>k. numbered ?b k \<noteq> []" by (simp add: numbered_def str_def)
  ultimately have "t \<noteq> []" "\<not> isWhiteSpace (last t)" using tf paren_not_ws by metis+
  then have tne: "trim t \<noteq> []" by (rule trim_ne)
  show ?thesis
    using t tne
    by (auto simp: handleImportCollection_def handleCreateCollection_def Let_def showToast_def
          finishImport_userCollections importItems_userCollections)
qed

lemma addedUnique_append:
  "addedUnique lower cols (a1 @ a2) = (addedUnique lower cols a1 \<and> addedUnique lower (cols @ a1) a2)"
  by (induction a1 arbitrary: cols) auto

lemma addedUnique_uniqueTitles:
  "uniqueTitles lower cols \<Longrightarrow> addedUnique lower cols added \<Longrightarrow> uniqueTitles lower (cols @ added)"
proof (induction added arbitrary: cols)
  case Nil
  then show ?case by simp
next
  case (Cons c cs)
  from Cons.prems have "uniqueTitles lower (cols @ [c])" "addedUnique lower (cols @ [c]) cs"
    by (simp_all add: uniqueTitles_snoc)
  from Cons.IH[OF this] show ?case by simp
qed

lemma import_step_added:
  assumes inj: "\<forall>j k. lower (numbered (importBaseTitle payload) j) = lower (numbered (importBaseTitle payload) k) \<longrightarrow> j = k"
  shows "\<exists>st' added. handleImportCollection lower ids nows payload st = Some st'
            \<and> userCollections st' = userCollections st @ added
            \<and> addedUnique lower (userCollections st) added
            \<and> length added \<le> 1
            \<and> (plTitle payload \<noteq> [] \<and> \<not> isWhiteSpace (hd (plTitle payload)) \<longrightarrow> length added = 1)"
proof -
  let ?b = "importBaseTitle payload"
  let ?cols = "userCollections st"
  let ?ty = "plType payload"
  from import_step[OF inj, of ids nows st]
  obtain st' t where imp: "handleImportCollection lower ids nows payload st = Some st'"
    and t: "uniqueTitleLoop lower ?cols ?ty ?b ?b 1 = Some t"
    and cols: "if titleTaken lower ?cols ?ty (trim t)
               then userCollections st' = ?cols
               else userCollections st' = ?cols @
                      [\<lparr>colId = ids 0, colTitle = trim t, colDescription = Some [],
                        colType = ?ty, createdAt = nows 0\<rparr>]"
    by blast
  let ?c = "\<lparr>colId = ids 0, colTitle = trim t, colDescription = Some [],
                        colType = ?ty, createdAt = nows 0\<rparr>"
  let ?added = "if titleTaken lower ?cols ?ty (trim t) then [] else [?c]"
  have a: "userCollections st' = ?cols @ ?added" using cols by simp
  have b: "addedUnique lower ?cols ?added" by simp
  have c: "length ?added \<le> 1" by simp
  have d: "length ?added = 1"
    if nw: "plTitle payload \<noteq> [] \<and> \<not> isWhiteSpace (hd (plTitle payload))"
  proof -
    from loop_total[OF inj, of ?cols ?ty] t
    have free: "\<not> titleTaken lower ?cols ?ty t" and shape: "t = ?b \<or> (\<exists>k\<ge>1. t = numbered ?b k)"
      by auto
    have b: "?b \<noteq> []" "\<not> isWhiteSpace (hd ?b)" using nw by (simp_all add: importBaseTitle_def)
    have "trim t = t" using shape trim_base[of payload] trim_numbered[OF b] nw by auto
    with free show ?thesis by simp
  qed
  from imp a b c d show ?thesis by blast
qed

text \<open>
  The title that one import creates, when the payload title does not start with white
  space: the payload title, a blank, the marker \<open>(Shared by X)\<close> for a sharer \<open>X\<close> or
  \<open>(Imported)\<close> without one, and, when that is taken, the number \<open>(k)\<close> for the least
  \<open>k \<ge> 1\<close> that makes it free.
\<close>

lemma import_creates_title:
  assumes inj: "\<forall>j k. lower (numbered (importBaseTitle payload) j) = lower (numbered (importBaseTitle payload) k) \<longrightarrow> j = k"
      and nw: "plTitle payload \<noteq> [] \<and> \<not> isWhiteSpace (hd (plTitle payload))"
  shows "\<exists>st' k. handleImportCollection lower ids nows payload st = Some st'
          \<and> userCollections st' = userCollections st @
               [\<lparr>colId = ids 0,
                 colTitle = plTitle payload @ str '' ''
                    @ (case plSharer payload of
                         Some s \<Rightarrow> (if s = [] then str ''(Imported)'' else str ''(Shared by '' @ s @ str '')'')
                       | None \<Rightarrow> str ''(Imported)'')
                    @ (if k = 0 then [] else str '' ('' @ dec k @ str '')''),
                 colDescription = Some [], colType = plType payload, createdAt = nows 0\<rparr>]
          \<and> (\<forall>j<k. titleTaken lower (userCollections st) (plType payload)
                 (plTitle payload @ str '' ''
                    @ (case plSharer payload of
                         Some s \<Rightarrow> (if s = [] then str ''(Imported)'' else str ''(Shared by '' @ s @ str '')'')
                       | None \<Rightarrow> str ''(Imported)'')
                    @ (if j = 0 then [] else str '' ('' @ dec j @ str '')'')))"
proof -
  let ?b = "importBaseTitle payload"
  let ?cols = "userCollections st"
  let ?ty = "plType payload"
  let ?T = "\<lambda>k. plTitle payload @ str '' ''
                    @ (case plSharer payload of
                         Some s \<Rightarrow> (if s = [] then str ''(Imported)'' else str ''(Shared by '' @ s @ str '')'')
                       | None \<Rightarrow> str ''(Imported)'')
                    @ (if k = 0 then [] else str '' ('' @ dec k @ str '')'')"
  have T0: "?T 0 = ?b" by (simp add: importBaseTitle_def importSuffix_def)
  have Tk: "?T k = numbered ?b k" if "1 \<le> k" for k
    using that by (simp add: importBaseTitle_def importSuffix_def numbered_def)
  from import_step[OF inj, of ids nows st]
  obtain st' t where imp: "handleImportCollection lower ids nows payload st = Some st'"
    and t: "uniqueTitleLoop lower ?cols ?ty ?b ?b 1 = Some t"
    and cols: "if titleTaken lower ?cols ?ty (trim t)
               then userCollections st' = ?cols
               else userCollections st' = ?cols @
                      [\<lparr>colId = ids 0, colTitle = trim t, colDescription = Some [],
                        colType = ?ty, createdAt = nows 0\<rparr>]"
    by blast
  from loop_total[OF inj, of ?cols ?ty] t
  have free: "\<not> titleTaken lower ?cols ?ty t"
    and shape: "t = ?b \<or> (titleTaken lower ?cols ?ty ?b \<and>
                 (\<exists>k\<ge>1. t = numbered ?b k
                      \<and> (\<forall>j. 1 \<le> j \<and> j < k \<longrightarrow> titleTaken lower ?cols ?ty (numbered ?b j))))"
    by auto
  have b: "?b \<noteq> []" "\<not> isWhiteSpace (hd ?b)" using nw by (simp_all add: importBaseTitle_def)
  have tr: "trim t = t" using shape trim_base[of payload] trim_numbered[OF b] nw by auto
  from cols free tr have new: "userCollections st' = ?cols @
                      [\<lparr>colId = ids 0, colTitle = t, colDescription = Some [],
                        colType = ?ty, createdAt = nows 0\<rparr>]" by simp
  from shape obtain k where k: "t = ?T k" "\<forall>j<k. titleTaken lower ?cols ?ty (?T j)"
  proof
    assume "t = ?b"
    then have "t = ?T 0" "\<forall>j<(0::nat). titleTaken lower ?cols ?ty (?T j)" using T0 by simp_all
    then show ?thesis by (rule that)
  next
    assume "titleTaken lower ?cols ?ty ?b \<and>
                 (\<exists>k\<ge>1. t = numbered ?b k
                      \<and> (\<forall>j. 1 \<le> j \<and> j < k \<longrightarrow> titleTaken lower ?cols ?ty (numbered ?b j)))"
    then obtain k where tb: "titleTaken lower ?cols ?ty ?b" and k1: "1 \<le> k" and tk: "t = numbered ?b k"
      and all: "\<forall>j. 1 \<le> j \<and> j < k \<longrightarrow> titleTaken lower ?cols ?ty (numbered ?b j)" by blast
    have "titleTaken lower ?cols ?ty (?T j)" if "j < k" for j
    proof (cases "j = 0")
      case True
      with tb T0 show ?thesis by simp
    next
      case False
      then have "1 \<le> j" by simp
      with all that Tk[OF this] show ?thesis by simp
    qed
    with tk Tk[OF k1] have "t = ?T k" "\<forall>j<k. titleTaken lower ?cols ?ty (?T j)" by simp_all
    then show ?thesis by (rule that)
  qed
  from imp new k show ?thesis by blast
qed

text \<open>
  Assume that lower-casing keeps the numbered variants of the import title apart
  (\<open>toLowerCase\<close> leaves digits and brackets alone).  Then importing the same payload
  any number of times returns, and it only appends collections, each with a title that no
  collection before it in the list has for the same type, up to case; so when the titles
  were unique per type up to case before, they still are afterwards.  At most one
  collection is added per import, and exactly one when the payload title does not start
  with white space.  The title search itself returns a free title: the title followed by
  the import marker, or, when that is taken, the first numbered variant \<open>(k)\<close>,
  \<open>k \<ge> 1\<close>, that is free, all smaller numbers being taken.
\<close>

theorem import_titles_unique:
  assumes inj: "\<forall>j k. lower (numbered (importBaseTitle payload) j) = lower (numbered (importBaseTitle payload) k) \<longrightarrow> j = k"
  shows "(\<exists>st' added. repeatImport lower ids nows payload n st = Some st'
            \<and> userCollections st' = userCollections st @ added
            \<and> addedUnique lower (userCollections st) added
            \<and> (uniqueTitles lower (userCollections st) \<longrightarrow> uniqueTitles lower (userCollections st'))
            \<and> length added \<le> n
            \<and> (plTitle payload \<noteq> [] \<and> \<not> isWhiteSpace (hd (plTitle payload)) \<longrightarrow> length added = n))
       \<and> (\<exists>t. uniqueTitleLoop lower (userCollections st) (plType payload)
                 (importBaseTitle payload) (importBaseTitle payload) 1 = Some t
             \<and> \<not> titleTaken lower (userCollections st) (plType payload) t
             \<and> (t = importBaseTitle payload \<or>
                (titleTaken lower (userCollections st) (plType payload) (importBaseTitle payload) \<and>
                 (\<exists>k\<ge>1. t = numbered (importBaseTitle payload) k
                      \<and> (\<forall>j. 1 \<le> j \<and> j < k \<longrightarrow>
                            titleTaken lower (userCollections st) (plType payload)
                              (numbered (importBaseTitle payload) j))))))"
proof
  have "\<exists>st' added. repeatImport lower ids nows payload n st = Some st'
            \<and> userCollections st' = userCollections st @ added
            \<and> addedUnique lower (userCollections st) added
            \<and> length added \<le> n
            \<and> (plTitle payload \<noteq> [] \<and> \<not> isWhiteSpace (hd (plTitle payload)) \<longrightarrow> length added = n)"
  proof (induction n arbitrary: st ids nows)
    case 0
    show ?case by simp
  next
    case (Suc n)
    from import_step_added[OF inj, of "ids 0" "nows 0" st]
    obtain st1 a1 where s1: "handleImportCollection lower (ids 0) (nows 0) payload st = Some st1"
      "userCollections st1 = userCollections st @ a1"
      "addedUnique lower (userCollections st) a1" "length a1 \<le> 1"
      "plTitle payload \<noteq> [] \<and> \<not> isWhiteSpace (hd (plTitle payload)) \<longrightarrow> length a1 = 1"
      by blast
    from Suc.IH[of "\<lambda>r. ids (Suc r)" "\<lambda>r. nows (Suc r)" st1]
    obtain st' a2 where s': "repeatImport lower (\<lambda>r. ids (Suc r)) (\<lambda>r. nows (Suc r)) payload n st1 = Some st'"
      "userCollections st' = userCollections st1 @ a2"
      "addedUnique lower (userCollections st1) a2" "length a2 \<le> n"
      "plTitle payload \<noteq> [] \<and> \<not> isWhiteSpace (hd (plTitle payload)) \<longrightarrow> length a2 = n"
      by blast
    have 1: "repeatImport lower ids nows payload (Suc n) st = Some st'" using s1(1) s'(1) by simp
    have 2: "userCollections st' = userCollections st @ (a1 @ a2)" using s1(2) s'(2) by simp
    have 3: "addedUnique lower (userCollections st) (a1 @ a2)"
      using s1(2,3) s'(3) by (simp add: addedUnique_append)
    have 4: "length (a1 @ a2) \<le> Suc n" using s1(4) s'(4) by simp
    have 5: "plTitle payload \<noteq> [] \<and> \<not> isWhiteSpace (hd (plTitle payload)) \<longrightarrow> length (a1 @ a2) = Suc n"
      using s1(5) s'(5) by simp
    from 1 2 3 4 5 show ?case by blast
  qed
  then obtain st' added where r: "repeatImport lower ids nows payload n st = Some st'"
      "userCollections st' = userCollections st @ added"
      "addedUnique lower (userCollections st) added" "length added \<le> n"
      "plTitle payload \<noteq> [] \<and> \<not> isWhiteSpace (hd (plTitle payload)) \<longrightarrow> length added = n"
    by blast
  have "uniqueTitles lower (userCollections st) \<longrightarrow> uniqueTitles lower (userCollections st')"
    using r(2,3) by (simp add: addedUnique_uniqueTitles)
  with r show "\<exists>st' added. repeatImport lower ids nows payload n st = Some st'
            \<and> userCollections st' = userCollections st @ added
            \<and> addedUnique lower (userCollections st) added
            \<and> (uniqueTitles lower (userCollections st) \<longrightarrow> uniqueTitles lower (userCollections st'))
            \<and> length added \<le> n
            \<and> (plTitle payload \<noteq> [] \<and> \<not> isWhiteSpace (hd (plTitle payload)) \<longrightarrow> length added = n)"
    by blast
next
  from loop_total[OF inj, of "userCollections st" "plType payload"]
  show "\<exists>t. uniqueTitleLoop lower (userCollections st) (plType payload)
                 (importBaseTitle payload) (importBaseTitle payload) 1 = Some t
             \<and> \<not> titleTaken lower (userCollections st) (plType payload) t
             \<and> (t = importBaseTitle payload \<or>
                (titleTaken lower (userCollections st) (plType payload) (importBaseTitle payload) \<and>
                 (\<exists>k\<ge>1. t = numbered (importBaseTitle payload) k
                      \<and> (\<forall>j. 1 \<le> j \<and> j < k \<longrightarrow>
                            titleTaken lower (userCollections st) (plType payload)
                              (numbered (importBaseTitle payload) j)))))"
    by blast
qed

lemma asciiLower_append: "asciiLower (a @ b) = asciiLower a @ asciiLower b"
  by (simp add: asciiLower_def)

lemma digit_not_upper: "d < 10 \<Longrightarrow> \<not> (65 \<le> unat (digit d) \<and> unat (digit d) \<le> 90)"
  by (simp only: digit_def unat_of_nat) simp

lemma asciiLower_dec: "asciiLower (dec n) = dec n"
proof (induction n rule: dec.induct)
  case (1 n)
  show ?case
  proof (cases "n < 10")
    case True
    then show ?thesis using digit_not_upper[of n] by (subst (1 2) dec.simps) (simp add: asciiLower_def)
  next
    case False
    with 1 have "asciiLower (dec (n div 10)) = dec (n div 10)" by simp
    with False show ?thesis using digit_not_upper[of "n mod 10"]
      by (subst (1 2) dec.simps) (simp add: asciiLower_append, simp add: asciiLower_def)
  qed
qed

lemma asciiLower_numbered_inj:
  "\<forall>j k. asciiLower (numbered b j) = asciiLower (numbered b k) \<longrightarrow> j = k"
  by (auto simp: numbered_def asciiLower_append asciiLower_dec dest: dec_inj)


lemma loop_taken:
  "titleTaken lower cols ty cur \<Longrightarrow>
     uniqueTitleLoop lower cols ty b cur c = uniqueTitleLoop lower cols ty b (numbered b c) (c + 1)"
  by (subst uniqueTitleLoop.simps) simp

lemma loop_free:
  "\<not> titleTaken lower cols ty cur \<Longrightarrow> uniqueTitleLoop lower cols ty b cur c = Some cur"
  by (subst uniqueTitleLoop.simps) simp

lemma dec_small: "n < 10 \<Longrightarrow> dec n = [digit n]"
  by (subst dec.simps) simp

lemmas ex_simps = mkState_def mkItem_def mkCol_def exPayload_def str_def asciiLower_def
  handleImportCollection_def handleCreateCollection_def importBaseTitle_def importSuffix_def
  numbered_def titleTaken_def trim_def isWhiteSpace_def Let_def showToast_def finishImport_def
  handleItemCollectionUpdate_def matchesShared_def importedItem_def orElse_def
  loop_taken loop_free dec_small digit_def


lemma importItems_fst:
  "fst (importItems snap ids nows cid pty shs (acc, st)) =
     acc @ map (\<lambda>(k, sh). importedItem (ids (Suc (length acc + k))) (nows (Suc (length acc + k))) cid pty sh)
             (enumerate 0 (filter (\<lambda>sh. find (matchesShared sh) (items snap) = None) shs))"
proof (induction shs arbitrary: acc st)
  case Nil
  show ?case by simp
next
  case (Cons sh shs)
  show ?case
  proof (cases "find (matchesShared sh) (items snap)")
    case (Some e)
    then show ?thesis by (simp add: Cons.IH)
  next
    case None
    then show ?thesis
      by (simp add: Cons.IH enumerate_Suc_eq[of 0] comp_def case_prod_unfold)
  qed
qed


lemma importItems_snd:
  "\<exists>g. items (snd (importItems snap ids nows cid pty shs (acc, st))) = map g (items st)
       \<and> (\<forall>x. itemId (g x) = itemId x
              \<and> g x = x\<lparr>collectionIds := collectionIds (g x)\<rparr>
              \<and> (if \<exists>e. linked snap shs x e
                  then \<exists>e. linked snap shs x e \<and> collectionIds (g x) = collectionIds e @ [cid]
                  else g x = x))"
proof (induction shs arbitrary: acc st)
  case Nil
  show ?case by (intro exI[of _ "\<lambda>x. x"]) (simp add: linked_def)
next
  case (Cons sh shs)
  show ?case
  proof (cases "find (matchesShared sh) (items snap)")
    case None
    from Cons.IH[of "acc @ [importedItem (ids (Suc (length acc))) (nows (Suc (length acc))) cid pty sh]" st]
    obtain g where g: "items (snd (importItems snap ids nows cid pty shs
          (acc @ [importedItem (ids (Suc (length acc))) (nows (Suc (length acc))) cid pty sh], st))) = map g (items st)"
       "\<forall>x. itemId (g x) = itemId x
              \<and> g x = x\<lparr>collectionIds := collectionIds (g x)\<rparr>
              \<and> (if \<exists>e. linked snap shs x e
                  then \<exists>e. linked snap shs x e \<and> collectionIds (g x) = collectionIds e @ [cid]
                  else g x = x)" by blast
    have "\<And>x e. linked snap (sh # shs) x e = linked snap shs x e"
      using None by (auto simp: linked_def)
    with g None show ?thesis by (intro exI[of _ g]) simp
  next
    case (Some e0)
    let ?u = "\<lambda>x. if itemId x = itemId e0 then x\<lparr>collectionIds := collectionIds e0 @ [cid]\<rparr> else x"
    let ?st = "handleItemCollectionUpdate snap (itemId e0) (collectionIds e0 @ [cid]) st"
    have ist: "items ?st = map ?u (items st)" by (simp add: handleItemCollectionUpdate_def)
    from Cons.IH[of acc ?st]
    obtain g where g: "items (snd (importItems snap ids nows cid pty shs (acc, ?st))) = map g (items ?st)"
       and gall: "\<forall>x. itemId (g x) = itemId x
              \<and> g x = x\<lparr>collectionIds := collectionIds (g x)\<rparr>
              \<and> (if \<exists>e. linked snap shs x e
                  then \<exists>e. linked snap shs x e \<and> collectionIds (g x) = collectionIds e @ [cid]
                  else g x = x)"
      by blast
    have gp1: "itemId (g x) = itemId x" for x using gall by blast
    have gp2: "g x = x\<lparr>collectionIds := collectionIds (g x)\<rparr>" for x using gall by blast
    have gp3: "\<exists>e. linked snap shs x e \<and> collectionIds (g x) = collectionIds e @ [cid]"
      if "\<exists>e. linked snap shs x e" for x
    proof -
      from gall have "if \<exists>e. linked snap shs x e
                  then \<exists>e. linked snap shs x e \<and> collectionIds (g x) = collectionIds e @ [cid]
                  else g x = x" by blast
      with that show ?thesis by (simp only: if_True)
    qed
    have gp4: "g x = x" if "\<not> (\<exists>e. linked snap shs x e)" for x
    proof -
      from gall have "if \<exists>e. linked snap shs x e
                  then \<exists>e. linked snap shs x e \<and> collectionIds (g x) = collectionIds e @ [cid]
                  else g x = x" by blast
      with that show ?thesis by (simp only: if_False)
    qed
    have l0: "\<And>x. itemId x = itemId e0 \<Longrightarrow> linked snap (sh # shs) x e0"
      using Some by (simp add: linked_def)
    have lmono: "\<And>x e. linked snap shs x e \<Longrightarrow> linked snap (sh # shs) x e"
      by (auto simp: linked_def)
    have lcases: "\<And>x e. linked snap (sh # shs) x e \<Longrightarrow> (e = e0 \<and> itemId x = itemId e0) \<or> linked snap shs x e"
      using Some by (auto simp: linked_def)
    have lid: "\<And>x e. linked snap shs (?u x) e = linked snap shs x e"
      by (simp add: linked_def)
    have P: "itemId (g (?u x)) = itemId x
              \<and> g (?u x) = x\<lparr>collectionIds := collectionIds (g (?u x))\<rparr>
              \<and> (if \<exists>e. linked snap (sh # shs) x e
                  then \<exists>e. linked snap (sh # shs) x e \<and> collectionIds (g (?u x)) = collectionIds e @ [cid]
                  else g (?u x) = x)" for x
    proof (intro conjI)
      show "itemId (g (?u x)) = itemId x" by (simp add: gp1)
      have "g (?u x) = (?u x)\<lparr>collectionIds := collectionIds (g (?u x))\<rparr>" by (rule gp2)
      then show "g (?u x) = x\<lparr>collectionIds := collectionIds (g (?u x))\<rparr>"
        by (simp split: if_splits)
      show "if \<exists>e. linked snap (sh # shs) x e
                  then \<exists>e. linked snap (sh # shs) x e \<and> collectionIds (g (?u x)) = collectionIds e @ [cid]
                  else g (?u x) = x"
      proof (cases "\<exists>e. linked snap shs x e")
        case True
        then have "\<exists>e. linked snap shs (?u x) e" using lid by blast
        from gp3[OF this] obtain e where "linked snap shs (?u x) e" "collectionIds (g (?u x)) = collectionIds e @ [cid]"
          by blast
        then have "linked snap (sh # shs) x e \<and> collectionIds (g (?u x)) = collectionIds e @ [cid]"
          using lid lmono by blast
        moreover have "\<exists>e. linked snap (sh # shs) x e" using True lmono by blast
        ultimately show ?thesis by auto
      next
        case False
        then have "\<not> (\<exists>e. linked snap shs (?u x) e)" using lid by blast
        from gp4[OF this] have gu: "g (?u x) = ?u x" .
        show ?thesis
        proof (cases "itemId x = itemId e0")
          case True
          with gu l0[OF True] show ?thesis by auto
        next
          case F2: False
          then have "\<not> (\<exists>e. linked snap (sh # shs) x e)" using False lcases by blast
          with gu F2 show ?thesis by simp
        qed
      qed
    qed
    have "items (snd (importItems snap ids nows cid pty (sh # shs) (acc, st))) = map (\<lambda>x. g (?u x)) (items st)"
      using Some g ist by (simp add: comp_def)
    with P show ?thesis by (intro exI[of _ "\<lambda>x. g (?u x)"]) blast
  qed
qed

lemma import_created:
  assumes imp: "handleImportCollection lower ids nows payload st = Some st'"
      and created: "length (userCollections st') = Suc (length (userCollections st))"
      and idne: "ids 0 \<noteq> []"
  shows "\<exists>st1. items st1 = items st
           \<and> st' = finishImport (ids 0)
                     (importItems st ids nows (ids 0) (plType payload) (plItems payload) ([], st1))"
  using assms
  apply (auto simp: handleImportCollection_def handleCreateCollection_def Let_def showToast_def
           split: option.splits if_splits)
  subgoal for t
    by (rule exI[of _ "st\<lparr>userCollections := userCollections st @
                        [\<lparr>colId = ids 0, colTitle = trim t, colDescription = Some [],
                          colType = plType payload, createdAt = nows 0\<rparr>]\<rparr>"]) simp
  done

lemma find_Some_mem: "find P xs = Some e \<Longrightarrow> e \<in> set xs \<and> P e"
  by (induction xs) (auto split: if_splits)

lemma importedItem_fields:
  "itemId (importedItem u n c pty sh) = u \<and> status (importedItem u n c pty sh) = WANT_TO
   \<and> memories (importedItem u n c pty sh) = [] \<and> addedAt (importedItem u n c pty sh) = n
   \<and> collectionIds (importedItem u n c pty sh) = [c]"
  by (simp add: importedItem_def)

text \<open>
  What an import does to the items once it has created its collection (one collection
  more than before, under a non-empty generated identifier): the item list afterwards is
  the created items followed by the old items.  There is one created item per incoming
  item that has no library item of identical title, creator and type, in the incoming
  order, each with its own fresh identifier, status wish-listed, no memories, the current
  timestamp and the new collection as its only membership.  The old items keep their
  place, identifier and every field but the membership list.  An old item whose identifier
  is that of the first identical library item of some incoming item has the new collection
  in its membership list (appended to its old list when identifiers are unique); any other
  old item is unchanged.
\<close>

theorem import_items:
  assumes imp: "handleImportCollection lower ids nows payload st = Some st'"
      and created: "length (userCollections st') = Suc (length (userCollections st))"
      and idne: "ids 0 \<noteq> []"
  shows "\<exists>new kept.
           items st' = new @ kept
         \<and> length kept = length (items st)
         \<and> length new = length (filter (\<lambda>sh. find (matchesShared sh) (items st) = None) (plItems payload))
         \<and> (\<forall>k<length new.
               new ! k = importedItem (ids (Suc k)) (nows (Suc k)) (ids 0) (plType payload)
                           (filter (\<lambda>sh. find (matchesShared sh) (items st) = None) (plItems payload) ! k)
               \<and> itemId (new ! k) = ids (Suc k) \<and> status (new ! k) = WANT_TO
               \<and> memories (new ! k) = [] \<and> addedAt (new ! k) = nows (Suc k)
               \<and> collectionIds (new ! k) = [ids 0])
         \<and> (\<forall>k<length kept.
               itemId (kept ! k) = itemId (items st ! k)
               \<and> kept ! k = (items st ! k)\<lparr>collectionIds := collectionIds (kept ! k)\<rparr>
               \<and> (if \<exists>e. linked st (plItems payload) (items st ! k) e
                   then ids 0 \<in> set (collectionIds (kept ! k))
                        \<and> (distinct (map itemId (items st)) \<longrightarrow>
                             collectionIds (kept ! k) = collectionIds (items st ! k) @ [ids 0])
                   else kept ! k = items st ! k))"
proof -
  let ?un = "filter (\<lambda>sh. find (matchesShared sh) (items st) = None) (plItems payload)"
  from import_created[OF assms] obtain st1 where st1: "items st1 = items st"
    and st': "st' = finishImport (ids 0)
                     (importItems st ids nows (ids 0) (plType payload) (plItems payload) ([], st1))"
    by blast
  let ?r = "importItems st ids nows (ids 0) (plType payload) (plItems payload) ([], st1)"
  let ?new = "fst ?r"
  let ?kept = "items (snd ?r)"
  have new: "?new = map (\<lambda>(k, sh). importedItem (ids (Suc k)) (nows (Suc k)) (ids 0) (plType payload) sh)
                       (enumerate 0 ?un)"
    using importItems_fst[of st ids nows "ids 0" "plType payload" "plItems payload" "[]" st1] by simp
  from importItems_snd[of st ids nows "ids 0" "plType payload" "plItems payload" "[]" st1]
  obtain g where g: "?kept = map g (items st)"
    and gall: "\<forall>x. itemId (g x) = itemId x
              \<and> g x = x\<lparr>collectionIds := collectionIds (g x)\<rparr>
              \<and> (if \<exists>e. linked st (plItems payload) x e
                  then \<exists>e. linked st (plItems payload) x e \<and> collectionIds (g x) = collectionIds e @ [ids 0]
                  else g x = x)"
    using st1 by auto
  have 1: "items st' = ?new @ ?kept" by (simp add: st' finishImport_items)
  have 2: "length ?kept = length (items st)" by (simp add: g)
  have 3: "length ?new = length ?un" by (simp add: new)
  have 4: "\<forall>k<length ?new.
               ?new ! k = importedItem (ids (Suc k)) (nows (Suc k)) (ids 0) (plType payload) (?un ! k)
               \<and> itemId (?new ! k) = ids (Suc k) \<and> status (?new ! k) = WANT_TO
               \<and> memories (?new ! k) = [] \<and> addedAt (?new ! k) = nows (Suc k)
               \<and> collectionIds (?new ! k) = [ids 0]"
  proof (intro allI impI)
    fix k assume "k < length ?new"
    then have k: "k < length ?un" by (simp add: 3)
    have "?new ! k = importedItem (ids (Suc k)) (nows (Suc k)) (ids 0) (plType payload) (?un ! k)"
      by (simp only: new) (simp add: k nth_enumerate_eq)
    then show "?new ! k = importedItem (ids (Suc k)) (nows (Suc k)) (ids 0) (plType payload) (?un ! k)
               \<and> itemId (?new ! k) = ids (Suc k) \<and> status (?new ! k) = WANT_TO
               \<and> memories (?new ! k) = [] \<and> addedAt (?new ! k) = nows (Suc k)
               \<and> collectionIds (?new ! k) = [ids 0]"
      by (simp only: importedItem_fields simp_thms)
  qed
  have 5: "\<forall>k<length ?kept.
               itemId (?kept ! k) = itemId (items st ! k)
               \<and> ?kept ! k = (items st ! k)\<lparr>collectionIds := collectionIds (?kept ! k)\<rparr>
               \<and> (if \<exists>e. linked st (plItems payload) (items st ! k) e
                   then ids 0 \<in> set (collectionIds (?kept ! k))
                        \<and> (distinct (map itemId (items st)) \<longrightarrow>
                             collectionIds (?kept ! k) = collectionIds (items st ! k) @ [ids 0])
                   else ?kept ! k = items st ! k)"
  proof (intro allI impI)
    fix k assume "k < length ?kept"
    then have k: "k < length (items st)" by (simp add: 2)
    let ?x = "items st ! k"
    have kx: "?kept ! k = g ?x" using k by (simp add: g)
    from gall have a: "itemId (g ?x) = itemId ?x" and b: "g ?x = ?x\<lparr>collectionIds := collectionIds (g ?x)\<rparr>"
      and c: "if \<exists>e. linked st (plItems payload) ?x e
                  then \<exists>e. linked st (plItems payload) ?x e \<and> collectionIds (g ?x) = collectionIds e @ [ids 0]
                  else g ?x = ?x" by blast+
    have d: "if \<exists>e. linked st (plItems payload) ?x e
                   then ids 0 \<in> set (collectionIds (g ?x))
                        \<and> (distinct (map itemId (items st)) \<longrightarrow>
                             collectionIds (g ?x) = collectionIds ?x @ [ids 0])
                   else g ?x = ?x"
    proof (cases "\<exists>e. linked st (plItems payload) ?x e")
      case False
      with c show ?thesis by simp
    next
      case True
      with c obtain e where e: "linked st (plItems payload) ?x e" "collectionIds (g ?x) = collectionIds e @ [ids 0]"
        by auto
      have "e = ?x" if dist: "distinct (map itemId (items st))"
      proof -
        from e(1) have "e \<in> set (items st)" "itemId e = itemId ?x"
          by (auto simp: linked_def dest: find_Some_mem)
        moreover have "?x \<in> set (items st)" using k by simp
        moreover from dist have "inj_on itemId (set (items st))" by (simp add: distinct_map)
        ultimately show ?thesis by (auto dest: inj_onD)
      qed
      with e(2) True show ?thesis by auto
    qed
    from a b d show "itemId (?kept ! k) = itemId (items st ! k)
               \<and> ?kept ! k = (items st ! k)\<lparr>collectionIds := collectionIds (?kept ! k)\<rparr>
               \<and> (if \<exists>e. linked st (plItems payload) (items st ! k) e
                   then ids 0 \<in> set (collectionIds (?kept ! k))
                        \<and> (distinct (map itemId (items st)) \<longrightarrow>
                             collectionIds (?kept ! k) = collectionIds (items st ! k) @ [ids 0])
                   else ?kept ! k = items st ! k)"
      by (simp only: kx)
  qed
  from 1 2 3 4 5 show ?thesis by blast
qed


lemmas ex_simps2 = ex_simps exIds_def exNows_def emma_def exLibrary_def

text \<open>
  The library has the book ``Dune'' by Frank Herbert; the payload lists it and ``Emma''.
  One item is created for ``Emma''; ``Dune'' is linked, not duplicated.
\<close>

theorem import_items_witness:
  "map_option (\<lambda>s. (map itemId (items s), map title (items s), map status (items s),
                     map collectionIds (items s), map colTitle (userCollections s)))
     (handleImportCollection asciiLower exIds exNows (exPayload\<lparr>plItems := plItems exPayload @ [emma]\<rparr>) exLibrary)
   = Some ([str ''id1'', str ''1''], [str ''Emma'', str ''Dune''], [WANT_TO, COMPLETED],
           [[str ''id0''], [str ''c1'', str ''id0'']],
           [str ''favorites (imported)'', str ''Favorites (Imported) (1)''])"
proof -
  let ?r = "handleImportCollection asciiLower exIds exNows (exPayload\<lparr>plItems := plItems exPayload @ [emma]\<rparr>) exLibrary"
  have h1: "?r = Some (the ?r)" by (simp add: ex_simps2)
  have h2: "length (userCollections (the ?r)) = Suc (length (userCollections exLibrary))"
    by (simp add: ex_simps2)
  have h3: "exIds 0 \<noteq> []" by (simp add: ex_simps2)
  show ?thesis
    using import_items [OF h1 h2 h3] by (simp add: ex_simps2)
qed

text \<open>
  \<^bold>\<open>C4.\<close>  A payload title with a leading blank, `` X'', and a library that has the
  collection ``X (Imported)''.  The title search tests `` X (Imported)'' as it is and
  finds it free; the creation trims it, finds ``X (Imported)'' taken and returns no
  identifier; the import stops there, before its loop over the incoming items.  The
  incoming item has no library item of identical title, creator and type, yet no item is
  created for it, and no item is linked.
\<close>

theorem import_blank_title_skips_items:
  "find (matchesShared (hd (plItems exPayload))) (items (mkState [] [mkCol ''c1'' ''X (Imported)'' BOOK])) = None
   \<and> map_option (\<lambda>s. (items s, map colTitle (userCollections s), toast s))
       (handleImportCollection asciiLower exIds exNows
          (exPayload\<lparr>plTitle := str '' X''\<rparr>) (mkState [] [mkCol ''c1'' ''X (Imported)'' BOOK]))
     = Some ([], [str ''X (Imported)''], Some (str ''A collection with this name already exists.'', Error))"
  by (simp add: ex_simps2)

text \<open>
  Two imports of ``Favorites'' into a library that has ``favorites (imported)'': the new
  collections get the numbers 1 and 2.
\<close>

theorem import_titles_unique_witness:
  "uniqueTitles asciiLower (userCollections exLibrary)
   \<and> map_option (\<lambda>s. map colTitle (userCollections s))
       (repeatImport asciiLower (\<lambda>r. exIds) (\<lambda>r. exNows) exPayload (Suc (Suc 0)) exLibrary)
     = Some [str ''favorites (imported)'', str ''Favorites (Imported) (1)'', str ''Favorites (Imported) (2)'']
   \<and> uniqueTitles asciiLower
        (mkCol ''c1'' ''favorites (imported)'' BOOK # mkCol ''i1'' ''Favorites (Imported) (1)'' BOOK
           # [mkCol ''i2'' ''Favorites (Imported) (2)'' BOOK])"
  using import_titles_unique [of asciiLower exPayload "\<lambda>r. exIds" "\<lambda>r. exNows" "Suc (Suc 0)" exLibrary,
          OF asciiLower_numbered_inj]
  by (simp add: ex_simps2)

text \<open>
  \<^bold>\<open>C5.\<close>  The payload with the title `` X'', imported three times in a row into an
  empty library.  The first import creates ``X (Imported)''.  From then on the title
  search tests `` X (Imported)'' as it is, finds it free and appends no number; the
  creation trims it and refuses it as a duplicate.  After three imports there is one
  collection and the error message: the second and third import got no title.
\<close>

theorem repeated_import_blank_title:
  "map_option (\<lambda>s. (map colTitle (userCollections s), toast s))
     (repeatImport asciiLower exRoundIds (\<lambda>r. exNows) (exPayload\<lparr>plTitle := str '' X''\<rparr>)
        (Suc (Suc (Suc 0))) (mkState [] []))
     = Some ([str ''X (Imported)''], Some (str ''A collection with this name already exists.'', Error))
   \<and> map_option (\<lambda>s. uniqueTitleLoop asciiLower (userCollections s) BOOK
                        (str '' X (Imported)'') (str '' X (Imported)'') 1)
       (repeatImport asciiLower exRoundIds (\<lambda>r. exNows) (exPayload\<lparr>plTitle := str '' X''\<rparr>)
          (Suc 0) (mkState [] []))
     = Some (Some (str '' X (Imported)''))"
  by (simp add: ex_simps2 exRoundIds_def)

section \<open>The type of an item: proofs\<close>

lemma traces_map:
  assumes "items st' = map g (items st)" "\<And>x. x \<in> set (items st) \<Longrightarrow> itemId (g x) = itemId x \<and> itemType (g x) = itemType x"
  shows "traces st st'"
  using assms by (auto simp: traces_def)

lemma traces_sub:
  assumes "set (items st') \<subseteq> set (items st)"
  shows "traces st st'"
  using assms by (auto simp: traces_def)

lemma traces_types:
  assumes "traces st st'" "distinct (map itemId (items st))"
    "x \<in> set (items st)" "y \<in> set (items st')" "itemId y = itemId x"
  shows "itemType y = itemType x"
proof -
  from assms(1,3,4,5) obtain x' where x': "x' \<in> set (items st)" "itemId x' = itemId y" "itemType x' = itemType y"
    by (auto simp: traces_def)
  from assms(2) have "inj_on itemId (set (items st))" by (simp add: distinct_map)
  with x'(1,2) assms(3,5) have "x' = x" by (auto dest: inj_onD)
  with x'(3) show ?thesis by simp
qed

lemma create_items:
  "items (snd (handleCreateCollection lower uuid now t d ty st)) = items st"
  by (simp add: handleCreateCollection_def Let_def showToast_def)

lemma create_fst:
  "fst (handleCreateCollection lower uuid now t d ty st) = Some cid \<Longrightarrow> cid = uuid"
  by (simp add: handleCreateCollection_def Let_def split: if_splits)

lemma save_items: "items (handleSaveCollection lower st) = items st"
  by (simp add: handleSaveCollection_def Let_def showToast_def split: option.splits)

lemma import_general:
  assumes imp: "handleImportCollection lower ids nows payload st = Some st'"
  shows "items st' = items st
       \<or> (\<exists>st1. items st1 = items st
           \<and> st' = finishImport (ids 0)
                     (importItems st ids nows (ids 0) (plType payload) (plItems payload) ([], st1)))"
proof -
  from imp obtain t where t: "uniqueTitleLoop lower (userCollections st) (plType payload)
             (importBaseTitle payload) (importBaseTitle payload) 1 = Some t"
    by (auto simp: handleImportCollection_def split: option.splits)
  let ?c = "handleCreateCollection lower (ids 0) (nows 0) t [] (plType payload) st"
  show ?thesis
  proof (cases "fst ?c")
    case None
    with imp t have "st' = snd ?c"
      by (simp add: handleImportCollection_def split: prod.splits)
    then show ?thesis by (simp add: create_items)
  next
    case (Some cid)
    then have cid: "cid = ids 0" by (rule create_fst)
    show ?thesis
    proof (cases "cid = []")
      case True
      with imp t Some have "st' = snd ?c"
        by (simp add: handleImportCollection_def split: prod.splits)
      then show ?thesis by (simp add: create_items)
    next
      case False
      with imp t Some cid have "st' = finishImport (ids 0)
                     (importItems st ids nows (ids 0) (plType payload) (plItems payload) ([], snd ?c))"
        by (simp add: handleImportCollection_def split: prod.splits)
      then show ?thesis using create_items by blast
    qed
  qed
qed

lemma step_traces:
  assumes "step lower op st = Some st'" "freshIds op st" "keepsType op st"
  shows "traces st st'"
proof (cases op)
  case (AddToLibrary uuid now result cid)
  with assms show ?thesis by (auto simp: traces_def addToLibrary_def Let_def)
next
  case (RemoveFromSearch r)
  with assms show ?thesis by (intro traces_sub) (auto simp: handleRemoveFromSearch_def)
next
  case (UpdateItem u)
  with assms show ?thesis
    by (intro traces_map[where g="\<lambda>i. if itemId i = itemId u then u else i"])
       (auto simp: handleUpdateItem_def list_all_iff)
next
  case (DeleteItem i)
  with assms show ?thesis by (intro traces_sub) (auto simp: handleDeleteItem_def)
next
  case (ItemCollectionUpdate i cids)
  with assms show ?thesis
    by (intro traces_map[where g="\<lambda>x. if itemId x = i then x\<lparr>collectionIds := cids\<rparr> else x"])
       (auto simp: handleItemCollectionUpdate_def)
next
  case (CreateCollection uuid now ttl desc ty)
  with assms show ?thesis
    by (intro traces_sub) (auto simp: create_items)
next
  case (DeleteCollection cid)
  with assms show ?thesis
    by (intro traces_map[where g="\<lambda>item. item\<lparr>collectionIds := filter (\<lambda>i. i \<noteq> cid) (collectionIds item)\<rparr>"])
       (auto simp: handleDeleteCollection_def)
next
  case SaveCollection
  with assms show ?thesis
    by (intro traces_sub) (auto simp: save_items)
next
  case AddToCollectionFromLibrary
  show ?thesis
  proof (cases "activeCollectionId st")
    case None
    with assms AddToCollectionFromLibrary show ?thesis
      by (intro traces_sub) (auto simp: handleAddToCollectionFromLibrary_def)
  next
    case (Some cid)
    show ?thesis
    proof (cases "cid = []")
      case True
      with Some assms AddToCollectionFromLibrary show ?thesis
        by (intro traces_sub) (auto simp: handleAddToCollectionFromLibrary_def)
    next
      case False
      with Some assms AddToCollectionFromLibrary show ?thesis
        by (intro traces_map[where g="\<lambda>item. if itemId item \<in> set (librarySelectionIds st)
                           \<and> cid \<notin> set (collectionIds item)
                        then item\<lparr>collectionIds := collectionIds item @ [cid]\<rparr>
                        else item"])
           (auto simp: handleAddToCollectionFromLibrary_def showToast_def)
    qed
  qed
next
  case (ImportCollection ids nows payload)
  with assms have imp: "handleImportCollection lower ids nows payload st = Some st'"
    and fr: "\<And>k. k < length (plItems payload) \<Longrightarrow> ids (Suc k) \<notin> itemId ` set (items st)"
    by (simp_all add: list_all_iff)
  from import_general[OF imp] show ?thesis
  proof
    assume "items st' = items st"
    then show ?thesis by (intro traces_sub) simp
  next
    assume "\<exists>st1. items st1 = items st
           \<and> st' = finishImport (ids 0)
                     (importItems st ids nows (ids 0) (plType payload) (plItems payload) ([], st1))"
    then obtain st1 where st1: "items st1 = items st"
      and st': "st' = finishImport (ids 0)
                     (importItems st ids nows (ids 0) (plType payload) (plItems payload) ([], st1))"
      by blast
    let ?r = "importItems st ids nows (ids 0) (plType payload) (plItems payload) ([], st1)"
    let ?un = "filter (\<lambda>sh. find (matchesShared sh) (items st) = None) (plItems payload)"
    have new: "fst ?r = map (\<lambda>(k, sh). importedItem (ids (Suc k)) (nows (Suc k)) (ids 0) (plType payload) sh)
                       (enumerate 0 ?un)"
      using importItems_fst[of st ids nows "ids 0" "plType payload" "plItems payload" "[]" st1] by simp
    from importItems_snd[of st ids nows "ids 0" "plType payload" "plItems payload" "[]" st1]
    obtain g where g: "items (snd ?r) = map g (items st)"
      and gall: "\<forall>x. itemId (g x) = itemId x \<and> g x = x\<lparr>collectionIds := collectionIds (g x)\<rparr>"
      using st1 by auto
    have gty: "itemType (g x) = itemType x" for x
    proof -
      from gall have "g x = x\<lparr>collectionIds := collectionIds (g x)\<rparr>" by blast
      then have "itemType (g x) = itemType (x\<lparr>collectionIds := collectionIds (g x)\<rparr>)" by simp
      then show ?thesis by simp
    qed
    have its: "items st' = fst ?r @ map g (items st)" by (simp add: st' finishImport_items g)
    show ?thesis
      unfolding traces_def
    proof
      fix y assume "y \<in> set (items st')"
      then consider "y \<in> set (fst ?r)" | "y \<in> g ` set (items st)" by (auto simp: its)
      then show "itemId y \<notin> itemId ` set (items st)
                   \<or> (\<exists>x\<in>set (items st). itemId x = itemId y \<and> itemType x = itemType y)"
      proof cases
        case 1
        then obtain k sh where "(k, sh) \<in> set (enumerate 0 ?un)"
          "y = importedItem (ids (Suc k)) (nows (Suc k)) (ids 0) (plType payload) sh"
          by (auto simp: new)
        then have kk: "k < length ?un" and yid: "itemId y = ids (Suc k)"
          by (auto simp: in_set_enumerate_eq importedItem_def)
        from kk length_filter_le[of _ "plItems payload"] have "k < length (plItems payload)"
          by (rule less_le_trans)
        with fr[of k] yid show ?thesis by simp
      next
        case 2
        then obtain x where "x \<in> set (items st)" "y = g x" by blast
        with gall gty show ?thesis by auto
      qed
    qed
  qed
next
  case AcceptEdit
  show ?thesis
  proof (cases "pendingEdit st")
    case None
    with assms AcceptEdit show ?thesis by (intro traces_sub) (auto simp: handleAcceptEdit_def)
  next
    case (Some pe)
    let ?P = "\<lambda>i. itemId i = itemId (editItem pe)"
    have acc: "itemId (acceptedItem pe) = itemId (editItem pe)" "itemType (acceptedItem pe) = itemType (editItem pe)"
      by (simp_all add: acceptedItem_def)
    show ?thesis
    proof (cases "findIndex ?P (items st)")
      case None
      then have nin: "itemId (editItem pe) \<notin> itemId ` set (items st)" by (auto simp: findIndex_None)
      have "items st' = acceptedItem pe # items st"
        using assms AcceptEdit Some None by (auto simp: handleAcceptEdit_def Let_def showToast_def)
      with nin acc show ?thesis by (auto simp: traces_def)
    next
      case (Some k)
      from findIndex_Some[OF Some] have k: "k < length (items st)" "itemId (items st ! k) = itemId (editItem pe)"
        by simp_all
      have its: "items st' = (items st)[k := acceptedItem pe]"
        using assms AcceptEdit \<open>pendingEdit st = Some pe\<close> Some by (auto simp: handleAcceptEdit_def Let_def showToast_def)
      from assms(3) AcceptEdit \<open>pendingEdit st = Some pe\<close> k
      have ty: "itemType (items st ! k) = itemType (editItem pe)"
        by (simp add: list_all_iff)
      show ?thesis
        unfolding traces_def
      proof
        fix y assume "y \<in> set (items st')"
        then have "y = acceptedItem pe \<or> y \<in> set (items st)"
          using set_update_subset_insert[of "items st" k "acceptedItem pe"] by (auto simp: its)
        then show "itemId y \<notin> itemId ` set (items st)
                   \<or> (\<exists>x\<in>set (items st). itemId x = itemId y \<and> itemType x = itemType y)"
        proof
          assume "y = acceptedItem pe"
          with k ty acc have "items st ! k \<in> set (items st) \<and> itemId (items st ! k) = itemId y
                        \<and> itemType (items st ! k) = itemType y" by simp
          then show ?thesis by blast
        next
          assume "y \<in> set (items st)"
          then show ?thesis by blast
        qed
      qed
    qed
  qed
next
  case BatchDelete
  show ?thesis
  proof (cases "view st = COLLECTIONS \<and> (case activeCollectionId st of Some c \<Rightarrow> c \<noteq> [] | None \<Rightarrow> False)")
    case True
    with assms BatchDelete show ?thesis
      by (intro traces_map[where g="\<lambda>item. if itemId item \<in> set (selectedIds st)
                                 then item\<lparr>collectionIds :=
                                        filter (\<lambda>i. Some i \<noteq> activeCollectionId st) (collectionIds item)\<rparr>
                                 else item"])
         (auto simp: handleBatchDelete_def Let_def showToast_def)
  next
    case False
    with assms BatchDelete show ?thesis
      by (intro traces_sub) (auto simp: handleBatchDelete_def Let_def showToast_def)
  qed
next
  case (BatchStatus s)
  with assms show ?thesis
    by (intro traces_map[where g="\<lambda>item. if itemId item \<in> set (selectedIds st) then item\<lparr>status := s\<rparr> else item"])
       (auto simp: handleBatchStatus_def showToast_def)
qed


text \<open>
  \<^bold>\<open>C8\<close> (amended).  Take a state whose items have pairwise different identifiers
  and any operation on the library whose generated item identifiers are not in use.  If
  the operation is not a whole-item replacement (\<open>updateItem\<close>, \<open>acceptItemEdit\<close>)
  that supplies an item of another type than the one it replaces, then every item that
  is in the library before and after the operation, by its identifier, has the type it
  had before.
\<close>

theorem type_kept:
  assumes "step lower op st = Some st'"
      and "distinct (map itemId (items st))"
      and "freshIds op st"
      and "keepsType op st"
  shows "\<forall>x\<in>set (items st). \<forall>y\<in>set (items st'). itemId y = itemId x \<longrightarrow> itemType y = itemType x"
  using step_traces[OF assms(1,3,4)] assms(2) traces_types by blast

text \<open>
  Replacing an item by an edit of its title and status, type unchanged: the types stay.
\<close>

theorem type_kept_witness:
  "distinct (map itemId (items exLibrary))
   \<and> keepsType (UpdateItem ((mkItem ''1'' ''Dune Messiah'' ''Frank Herbert'' BOOK [''c1''])\<lparr>status := WANT_TO\<rparr>)) exLibrary
   \<and> map_option (\<lambda>s. (map itemId (items s), map title (items s), map itemType (items s)))
        (step asciiLower (UpdateItem ((mkItem ''1'' ''Dune Messiah'' ''Frank Herbert'' BOOK [''c1''])\<lparr>status := WANT_TO\<rparr>)) exLibrary)
      = Some ([str ''1''], [str ''Dune Messiah''], [BOOK])
   \<and> map itemType (items exLibrary) = [BOOK]"
  using type_kept [of asciiLower "UpdateItem ((mkItem ''1'' ''Dune Messiah'' ''Frank Herbert'' BOOK [''c1''])\<lparr>status := WANT_TO\<rparr>)"
          exLibrary "handleUpdateItem ((mkItem ''1'' ''Dune Messiah'' ''Frank Herbert'' BOOK [''c1''])\<lparr>status := WANT_TO\<rparr>) exLibrary"]
  by (simp add: handleUpdateItem_def exLibrary_def mkState_def mkItem_def mkCol_def str_def)

text \<open>
  The book with identifier 1 is replaced by a film with identifier 1, once through
  \<open>updateItem\<close> and once through an accepted shared edit: afterwards the item with
  identifier 1 is a film.
\<close>

theorem replacement_changes_type:
  "map itemId (items exLibrary) = [str ''1''] \<and> map itemType (items exLibrary) = [BOOK]
   \<and> map_option (\<lambda>s. (map itemId (items s), map itemType (items s)))
        (step asciiLower (UpdateItem (mkItem ''1'' ''Dune'' ''Denis Villeneuve'' MOVIE [])) exLibrary)
      = Some ([str ''1''], [MOVIE])
   \<and> map_option (\<lambda>s. (map itemId (items s), map itemType (items s)))
        (step asciiLower AcceptEdit
           (exLibrary\<lparr>pendingEdit := Some \<lparr>editItem = mkItem ''1'' ''Dune'' ''Denis Villeneuve'' MOVIE [],
                                             editSharer = str ''Ann''\<rparr>\<rparr>))
      = Some ([str ''1''], [MOVIE])"
  by (simp add: handleUpdateItem_def handleAcceptEdit_def acceptedItem_def showToast_def Let_def
        exLibrary_def mkState_def mkItem_def mkCol_def str_def)

section \<open>Sorting the view: proofs\<close>

lemma mset_insertSorted: "mset (insertSorted cmp x ys) = add_mset x (mset ys)"
  by (induction ys) auto

lemma set_insertSorted: "set (insertSorted cmp x ys) = insert x (set ys)"
  by (induction ys) auto

lemma mset_insertion: "mset (foldr (insertSorted cmp) xs []) = mset xs"
  by (induction xs) (auto simp: mset_insertSorted)

lemma set_insertion: "set (foldr (insertSorted cmp) xs []) = set xs"
  by (induction xs) (auto simp: set_insertSorted)

lemma consistentOn_iff:
  "consistentOn cmp xs =
     (\<forall>a\<in>set xs. cmp a a = 0 \<and>
       (\<forall>b\<in>set xs. (cmp a b = 0 \<longrightarrow> cmp b a = 0) \<and>
         (\<forall>c\<in>set xs. (cmp a b = 0 \<and> cmp b c = 0 \<longrightarrow> cmp a c = 0)
                      \<and> (cmp a b < 0 \<and> cmp b c < 0 \<longrightarrow> cmp a c < 0)
                      \<and> (cmp a b > 0 \<and> cmp b c > 0 \<longrightarrow> cmp a c > 0))))"
  by (simp only: consistentOn_def list_all_iff)

text \<open>What a consistent comparison gives on its elements: a total preorder.\<close>

lemma consistent_refl: "consistentOn cmp xs \<Longrightarrow> a \<in> set xs \<Longrightarrow> cmp a a = 0"
  unfolding consistentOn_iff by blast

lemma consistent_sym:
  "consistentOn cmp xs \<Longrightarrow> a \<in> set xs \<Longrightarrow> b \<in> set xs \<Longrightarrow> cmp a b = 0 \<Longrightarrow> cmp b a = 0"
  unfolding consistentOn_iff by blast

lemma consistent_trans_eq:
  "consistentOn cmp xs \<Longrightarrow> a \<in> set xs \<Longrightarrow> b \<in> set xs \<Longrightarrow> c \<in> set xs
     \<Longrightarrow> cmp a b = 0 \<Longrightarrow> cmp b c = 0 \<Longrightarrow> cmp a c = 0"
  unfolding consistentOn_iff by blast

lemma consistent_trans_less:
  "consistentOn cmp xs \<Longrightarrow> a \<in> set xs \<Longrightarrow> b \<in> set xs \<Longrightarrow> c \<in> set xs
     \<Longrightarrow> cmp a b < 0 \<Longrightarrow> cmp b c < 0 \<Longrightarrow> cmp a c < 0"
  unfolding consistentOn_iff by blast

lemma consistent_trans_greater:
  "consistentOn cmp xs \<Longrightarrow> a \<in> set xs \<Longrightarrow> b \<in> set xs \<Longrightarrow> c \<in> set xs
     \<Longrightarrow> cmp a b > 0 \<Longrightarrow> cmp b c > 0 \<Longrightarrow> cmp a c > 0"
  unfolding consistentOn_iff by blast

lemma consistent_anti:
  assumes c: "consistentOn cmp xs" and a: "a \<in> set xs" and b: "b \<in> set xs"
  shows "(cmp a b < 0) = (0 < cmp b a)"
proof
  assume ab: "cmp a b < 0"
  show "0 < cmp b a"
  proof (rule ccontr)
    assume "\<not> 0 < cmp b a"
    then consider "cmp b a = 0" | "cmp b a < 0" by linarith
    then show False
    proof cases
      case 1
      from consistent_sym[OF c b a 1] ab show False by simp
    next
      case 2
      from consistent_trans_less[OF c a b a ab 2] consistent_refl[OF c a] show False by simp
    qed
  qed
next
  assume ba: "0 < cmp b a"
  show "cmp a b < 0"
  proof (rule ccontr)
    assume "\<not> cmp a b < 0"
    then consider "cmp a b = 0" | "cmp a b > 0" by linarith
    then show False
    proof cases
      case 1
      from consistent_sym[OF c a b 1] ba show False by simp
    next
      case 2
      from consistent_trans_greater[OF c a b a 2 ba] consistent_refl[OF c a] show False by simp
    qed
  qed
qed

lemma consistent_total:
  assumes c: "consistentOn cmp xs" and a: "a \<in> set xs" and b: "b \<in> set xs"
  shows "cmp a b \<le> 0 \<or> cmp b a \<le> 0"
  using consistent_anti[OF c b a] by linarith

lemma consistent_trans:
  assumes c: "consistentOn cmp xs" and a: "a \<in> set xs" and b: "b \<in> set xs" and d: "d \<in> set xs"
    and ab: "cmp a b \<le> 0" and bd: "cmp b d \<le> 0"
  shows "cmp a d \<le> 0"
proof (rule ccontr)
  assume "\<not> cmp a d \<le> 0"
  then have ad: "0 < cmp a d" by simp
  then have da: "cmp d a < 0" using consistent_anti[OF c d a] by simp
  consider "cmp a b < 0" "cmp b d < 0" | "cmp a b = 0" "cmp b d = 0"
    | "cmp a b = 0" "cmp b d < 0" | "cmp a b < 0" "cmp b d = 0"
    using ab bd by linarith
  then show False
  proof cases
    case 1
    from consistent_trans_less[OF c a b d 1] ad show False by simp
  next
    case 2
    from consistent_trans_eq[OF c a b d 2] ad show False by simp
  next
    case 3
    from consistent_trans_less[OF c b d a 3(2) da] have "cmp b a < 0" .
    with consistent_sym[OF c a b 3(1)] show False by simp
  next
    case 4
    from consistent_trans_less[OF c d a b da 4(1)] have "cmp d b < 0" .
    with consistent_sym[OF c b d 4(2)] show False by simp
  qed
qed

lemma consistent_neg:
  assumes c: "consistentOn cmp xs"
  shows "consistentOn (\<lambda>a b. - cmp a b) xs"
proof -
  have "- cmp a a = 0" if "a \<in> set xs" for a using consistent_refl[OF c that] by simp
  moreover have "- cmp b a = 0" if "a \<in> set xs" "b \<in> set xs" "- cmp a b = 0" for a b
    using consistent_sym[OF c that(1,2)] that(3) by simp
  moreover have "- cmp a d = 0"
    if "a \<in> set xs" "b \<in> set xs" "d \<in> set xs" "- cmp a b = 0" "- cmp b d = 0" for a b d
    using consistent_trans_eq[OF c that(1,2,3)] that(4,5) by simp
  moreover have "- cmp a d < 0"
    if "a \<in> set xs" "b \<in> set xs" "d \<in> set xs" "- cmp a b < 0" "- cmp b d < 0" for a b d
    using consistent_trans_greater[OF c that(1,2,3)] that(4,5) by simp
  moreover have "- cmp a d > 0"
    if "a \<in> set xs" "b \<in> set xs" "d \<in> set xs" "- cmp a b > 0" "- cmp b d > 0" for a b d
    using consistent_trans_less[OF c that(1,2,3)] that(4,5) by simp
  ultimately show ?thesis unfolding consistentOn_iff by blast
qed

lemma sorted_insertSorted:
  assumes tot: "\<And>a b. a \<in> S \<Longrightarrow> b \<in> S \<Longrightarrow> cmp a b \<le> 0 \<or> cmp b a \<le> 0"
    and tr: "\<And>a b d. a \<in> S \<Longrightarrow> b \<in> S \<Longrightarrow> d \<in> S \<Longrightarrow> cmp a b \<le> 0 \<Longrightarrow> cmp b d \<le> 0 \<Longrightarrow> cmp a d \<le> 0"
    and x: "x \<in> S" and ys: "set ys \<subseteq> S" and s: "sorted_wrt (\<lambda>a b. cmp a b \<le> 0) ys"
  shows "sorted_wrt (\<lambda>a b. cmp a b \<le> 0) (insertSorted cmp x ys)"
  using ys s
proof (induction ys)
  case Nil
  show ?case by simp
next
  case (Cons y ys)
  then have y: "y \<in> S" and yss: "set ys \<subseteq> S" by simp_all
  show ?case
  proof (cases "cmp x y \<le> 0")
    case True
    have "\<forall>z\<in>set ys. cmp x z \<le> 0"
    proof
      fix z assume z: "z \<in> set ys"
      with Cons.prems(2) have "cmp y z \<le> 0" by simp
      with tr[OF x y _ True] z yss show "cmp x z \<le> 0" by blast
    qed
    with True Cons.prems(2) show ?thesis by simp
  next
    case False
    with tot[OF x y] have yx: "cmp y x \<le> 0" by simp
    from Cons.prems yss have "sorted_wrt (\<lambda>a b. cmp a b \<le> 0) (insertSorted cmp x ys)"
      by (intro Cons.IH) simp_all
    with False yx Cons.prems(2) show ?thesis by (simp add: set_insertSorted)
  qed
qed

lemma sorted_insertion:
  assumes tot: "\<And>a b. a \<in> S \<Longrightarrow> b \<in> S \<Longrightarrow> cmp a b \<le> 0 \<or> cmp b a \<le> 0"
    and tr: "\<And>a b d. a \<in> S \<Longrightarrow> b \<in> S \<Longrightarrow> d \<in> S \<Longrightarrow> cmp a b \<le> 0 \<Longrightarrow> cmp b d \<le> 0 \<Longrightarrow> cmp a d \<le> 0"
    and xs: "set xs \<subseteq> S"
  shows "sorted_wrt (\<lambda>a b. cmp a b \<le> 0) (foldr (insertSorted cmp) xs [])"
  using xs
proof (induction xs)
  case Nil
  show ?case by simp
next
  case (Cons x xs)
  then have ih: "sorted_wrt (\<lambda>a b. cmp a b \<le> 0) (foldr (insertSorted cmp) xs [])" by simp
  have "set (foldr (insertSorted cmp) xs []) \<subseteq> S" using Cons.prems by (simp add: set_insertion)
  from sorted_insertSorted[of S cmp x, OF tot tr _ this ih] Cons.prems show ?case by simp
qed

lemma sorted_consistent:
  assumes c: "consistentOn cmp xs"
  shows "sorted_wrt (\<lambda>a b. cmp a b \<le> 0) (foldr (insertSorted cmp) xs [])"
proof (rule sorted_insertion[of "set xs"])
  show "cmp a b \<le> 0 \<or> cmp b a \<le> 0" if "a \<in> set xs" "b \<in> set xs" for a b
    using consistent_total[OF c that] .
  show "cmp a d \<le> 0" if "a \<in> set xs" "b \<in> set xs" "d \<in> set xs" "cmp a b \<le> 0" "cmp b d \<le> 0" for a b d
    using consistent_trans[OF c that] .
  show "set xs \<subseteq> set xs" by simp
qed

lemma sorted_strict:
  "sorted_wrt (\<lambda>a b. cmp a b \<le> (0::int)) ys \<Longrightarrow> distinct ys
     \<Longrightarrow> \<forall>a\<in>set ys. \<forall>b\<in>set ys. a \<noteq> b \<longrightarrow> cmp a b \<noteq> 0
     \<Longrightarrow> sorted_wrt (\<lambda>a b. cmp a b < 0) ys"
proof (induction ys)
  case Nil
  show ?case by simp
next
  case (Cons y ys)
  have "\<forall>z\<in>set ys. cmp y z < 0"
  proof
    fix z assume z: "z \<in> set ys"
    with Cons.prems(2) have "y \<noteq> z" by auto
    with Cons.prems(3) z have "cmp y z \<noteq> 0" by simp
    moreover from Cons.prems(1) z have "cmp y z \<le> 0" by simp
    ultimately show "cmp y z < 0" by linarith
  qed
  moreover from Cons have "sorted_wrt (\<lambda>a b. cmp a b < 0) ys" by simp
  ultimately show ?case by simp
qed

lemma sorted_wrt_unique:
  assumes irr: "\<And>a. a \<in> S \<Longrightarrow> \<not> R a a" and asym: "\<And>a b. a \<in> S \<Longrightarrow> b \<in> S \<Longrightarrow> R a b \<Longrightarrow> \<not> R b a"
    and "sorted_wrt R xs" "sorted_wrt R ys" "set xs = set ys" "set xs \<subseteq> S"
  shows "xs = ys"
  using assms(3-)
proof (induction xs arbitrary: ys)
  case Nil
  then show ?case by simp
next
  case (Cons x xs)
  then obtain y ys' where ys: "ys = y # ys'" by (cases ys) auto
  from Cons.prems(3,4) ys have xS: "x \<in> S" and yS: "y \<in> S" by auto
  have xy: "x = y"
  proof (rule ccontr)
    assume ne: "x \<noteq> y"
    with Cons.prems(3) ys have "x \<in> set ys'" "y \<in> set xs" by auto
    with Cons.prems(1,2) ys have "R y x" "R x y" by auto
    with asym[OF xS yS] show False by blast
  qed
  have "x \<notin> set xs" using Cons.prems(1) irr[OF xS] by auto
  moreover have "y \<notin> set ys'" using Cons.prems(2) ys irr[OF yS] by auto
  ultimately have "set xs = set ys'" using Cons.prems(3) ys xy by auto
  with Cons.IH[of ys'] Cons.prems(1,2,4) ys have "xs = ys'" by simp
  with xy ys show ?case by simp
qed

lemma pairwise_from_index:
  assumes c: "consistentOn cmp xs"
    and nz: "\<forall>i j. i < j \<and> j < length xs \<longrightarrow> cmp (xs ! i) (xs ! j) \<noteq> 0"
  shows "distinct xs \<and> (\<forall>a\<in>set xs. \<forall>b\<in>set xs. a \<noteq> b \<longrightarrow> cmp a b \<noteq> 0)"
proof
  have ne: "cmp (xs ! i) (xs ! j) \<noteq> 0" if "i < length xs" "j < length xs" "i \<noteq> j" for i j
  proof (cases "i < j")
    case True with nz that show ?thesis by blast
  next
    case False
    with that have "j < i" by simp
    with nz that have "cmp (xs ! j) (xs ! i) \<noteq> 0" by blast
    then show ?thesis using consistent_sym[OF c, of "xs ! i" "xs ! j"] that by auto
  qed
  show "distinct xs"
    unfolding distinct_conv_nth
  proof (intro allI impI)
    fix i j assume "i < length xs" "j < length xs" "i \<noteq> j"
    from ne[OF this] consistent_refl[OF c, of "xs ! i"] \<open>i < length xs\<close>
    show "xs ! i \<noteq> xs ! j" by auto
  qed
  show "\<forall>a\<in>set xs. \<forall>b\<in>set xs. a \<noteq> b \<longrightarrow> cmp a b \<noteq> 0"
  proof (intro ballI impI)
    fix a b assume "a \<in> set xs" "b \<in> set xs" "a \<noteq> b"
    then obtain i j where "i < length xs" "j < length xs" "xs ! i = a" "xs ! j = b"
      by (auto simp: in_set_conv_nth)
    with \<open>a \<noteq> b\<close> ne[of i j] show "cmp a b \<noteq> 0" by auto
  qed
qed

lemma insertion_flip:
  assumes c: "consistentOn cmp xs"
    and nz: "\<forall>i j. i < j \<and> j < length xs \<longrightarrow> cmp (xs ! i) (xs ! j) \<noteq> 0"
  shows "foldr (insertSorted (\<lambda>a b. - cmp a b)) xs [] = rev (foldr (insertSorted cmp) xs [])"
proof -
  let ?asc = "foldr (insertSorted cmp) xs []"
  let ?desc = "foldr (insertSorted (\<lambda>a b. - cmp a b)) xs []"
  let ?R = "\<lambda>a b. cmp b a < 0"
  from pairwise_from_index[OF c nz]
  have d: "distinct xs" and p: "\<forall>a\<in>set xs. \<forall>b\<in>set xs. a \<noteq> b \<longrightarrow> cmp a b \<noteq> 0" by blast+
  have da: "distinct ?asc" using d mset_eq_imp_distinct_iff[OF mset_insertion[of cmp xs]] by simp
  have dd: "distinct ?desc"
    using d mset_eq_imp_distinct_iff[OF mset_insertion[of "\<lambda>a b. - cmp a b" xs]] by simp
  have "sorted_wrt (\<lambda>a b. cmp a b < 0) ?asc"
    using sorted_consistent[OF c] da p by (intro sorted_strict) (simp_all add: set_insertion)
  then have b: "sorted_wrt ?R (rev ?asc)" by (simp add: sorted_wrt_rev)
  have "sorted_wrt (\<lambda>a b. - cmp a b < 0) ?desc"
    using sorted_consistent[OF consistent_neg[OF c]] dd p
    by (intro sorted_strict) (simp_all add: set_insertion)
  then have "sorted_wrt (\<lambda>a b. 0 < cmp a b) ?desc" by simp
  then have a: "sorted_wrt ?R ?desc"
  proof (rule sorted_wrt_mono_rel[rotated])
    fix a b assume "a \<in> set ?desc" "b \<in> set ?desc" "0 < cmp a b"
    then show "cmp b a < 0" using consistent_anti[OF c, of b a] by (simp add: set_insertion)
  qed
  show ?thesis
  proof (rule sorted_wrt_unique[of "set xs" ?R, OF _ _ a b])
    show "\<not> ?R a a" if "a \<in> set xs" for a using consistent_refl[OF c that] by simp
    show "\<not> ?R b a" if "a \<in> set xs" "b \<in> set xs" "?R a b" for a b
      using consistent_anti[OF c that(2,1)] that(3) by simp
    show "set ?desc = set (rev ?asc)" by (simp add: set_insertion)
    show "set ?desc \<subseteq> set xs" by (simp add: set_insertion)
  qed
qed

text \<open>When the selected comparison is consistent.\<close>

lemma consistent_key:
  assumes e: "\<And>a b. a \<in> set xs \<Longrightarrow> b \<in> set xs \<Longrightarrow> cmp a b = key a - key b"
  shows "consistentOn cmp xs"
  unfolding consistentOn_iff
  by (intro ballI conjI impI) (auto simp: e)

lemma consistent_map:
  "consistentOn cmp (map f xs) \<Longrightarrow> consistentOn (\<lambda>a b. cmp (f a) (f b)) xs"
  by (simp only: consistentOn_def list.pred_map comp_def)

lemma consistent_rating: "consistentOn (comparison getTime localeCompare RATING) xs"
  by (rule consistent_key[where key = ratingOrZero]) (simp add: comparison_def)

lemma consistent_date:
  assumes "list_all (\<lambda>a. getTime (addedAt a) \<noteq> None) xs"
  shows "consistentOn (comparison getTime localeCompare DATE) xs"
proof (rule consistent_key[where key = "\<lambda>a. the (getTime (addedAt a))"])
  fix a b assume "a \<in> set xs" "b \<in> set xs"
  with assms have "getTime (addedAt a) \<noteq> None" "getTime (addedAt b) \<noteq> None"
    by (simp_all add: list_all_iff)
  then show "comparison getTime localeCompare DATE a b
             = the (getTime (addedAt a)) - the (getTime (addedAt b))"
    by (auto simp: comparison_def)
qed

lemma consistent_title:
  assumes "consistentOn localeCompare (map title xs)"
  shows "consistentOn (comparison getTime localeCompare TITLE) xs"
proof -
  have "comparison getTime localeCompare TITLE = (\<lambda>a b. localeCompare (title a) (title b))"
    by (simp add: comparison_def fun_eq_iff)
  with consistent_map[OF assms] show ?thesis by simp
qed


text \<open>The insertion is stable: elements that compare equal keep their order.\<close>

lemma filter_insertSorted:
  assumes c: "consistentOn cmp zs" and a: "a \<in> set zs" and x: "x \<in> set zs" and ys: "set ys \<subseteq> set zs"
  shows "filter (\<lambda>b. cmp a b = 0) (insertSorted cmp x ys)
           = (if cmp a x = 0 then x # filter (\<lambda>b. cmp a b = 0) ys else filter (\<lambda>b. cmp a b = 0) ys)"
  using ys
proof (induction ys)
  case Nil
  show ?case by simp
next
  case (Cons y ys)
  then have y: "y \<in> set zs" and yss: "set ys \<subseteq> set zs" by simp_all
  note ih = Cons.IH[OF yss]
  show ?case
  proof (cases "cmp x y \<le> 0")
    case True
    then show ?thesis by simp
  next
    case False
    have "cmp a y \<noteq> 0" if ax: "cmp a x = 0"
    proof
      assume ay: "cmp a y = 0"
      from consistent_sym[OF c a x ax] have "cmp x a = 0" .
      from consistent_trans_eq[OF c x a y this ay] False show False by simp
    qed
    with False ih show ?thesis by simp
  qed
qed

lemma insertion_stable:
  assumes c: "consistentOn cmp xs" and a: "a \<in> set xs"
  shows "filter (\<lambda>b. cmp a b = 0) (foldr (insertSorted cmp) xs []) = filter (\<lambda>b. cmp a b = 0) xs"
proof -
  have "set ys \<subseteq> set xs \<Longrightarrow>
          filter (\<lambda>b. cmp a b = 0) (foldr (insertSorted cmp) ys []) = filter (\<lambda>b. cmp a b = 0) ys" for ys
  proof (induction ys)
    case Nil
    show ?case by simp
  next
    case (Cons y ys)
    then have y: "y \<in> set xs" and yss: "set ys \<subseteq> set xs" by simp_all
    have "set (foldr (insertSorted cmp) ys []) \<subseteq> set xs" using yss by (simp add: set_insertion)
    from filter_insertSorted[OF c a y this] Cons.IH[OF yss] show ?case by simp
  qed
  then show ?thesis by simp
qed

lemma sorted_wrt_on:
  "sorted_wrt P ys \<Longrightarrow> (\<And>a b. a \<in> set ys \<Longrightarrow> b \<in> set ys \<Longrightarrow> P a b \<Longrightarrow> Q a b) \<Longrightarrow> sorted_wrt Q ys"
  by (rule sorted_wrt_mono_rel)

text \<open>
  \<^bold>\<open>C6\<close> (amended).  Take any item list; when the criterion is the date, let every added
  timestamp parse, and when it is the title, let the host's collation be a consistent
  comparator for the titles.  Then both directions return a rearrangement of the list,
  ordered by the one key that the criterion selects.  Ascending, the parsed added
  timestamps, or the ratings with an absent rating read as 0, never decrease from an
  item to any later one, and no title compares greater than a later one under
  \<open>localeCompare\<close>; descending, it is the other way round, the comparison being negated.
  The result is a function of the list, the criterion, the direction and the host's
  collation and date parsing.  When, moreover, no two positions of the list have the same
  parsed timestamp, respectively titles that compare equal, respectively the same rating
  with absent read as 0, the descending result is exactly the reverse of the ascending
  one.
\<close>

theorem sorted_view:
  assumes dt: "sortCriteria st = DATE \<Longrightarrow> list_all (\<lambda>a. getTime (addedAt a) \<noteq> None) xs"
      and lc: "sortCriteria st = TITLE \<Longrightarrow> consistentOn localeCompare (map title xs)"
  shows "\<exists>asc desc.
      getSortedItems getTime localeCompare (st\<lparr>sortOrder := ASC\<rparr>) xs = Some asc
    \<and> getSortedItems getTime localeCompare (st\<lparr>sortOrder := DESC\<rparr>) xs = Some desc
    \<and> mset asc = mset xs \<and> mset desc = mset xs
    \<and> (case sortCriteria st of
          DATE \<Rightarrow>
            sorted_wrt (\<lambda>a b. \<exists>x y. getTime (addedAt a) = Some x \<and> getTime (addedAt b) = Some y \<and> x \<le> y) asc
          \<and> sorted_wrt (\<lambda>a b. \<exists>x y. getTime (addedAt a) = Some x \<and> getTime (addedAt b) = Some y \<and> y \<le> x) desc
        | TITLE \<Rightarrow>
            sorted_wrt (\<lambda>a b. localeCompare (title a) (title b) \<le> 0) asc
          \<and> sorted_wrt (\<lambda>a b. 0 \<le> localeCompare (title a) (title b)) desc
        | RATING \<Rightarrow>
            sorted_wrt (\<lambda>a b. (case rating a of None \<Rightarrow> 0 | Some r \<Rightarrow> r)
                               \<le> (case rating b of None \<Rightarrow> 0 | Some r \<Rightarrow> r)) asc
          \<and> sorted_wrt (\<lambda>a b. (case rating b of None \<Rightarrow> 0 | Some r \<Rightarrow> r)
                               \<le> (case rating a of None \<Rightarrow> 0 | Some r \<Rightarrow> r)) desc)
    \<and> ((\<forall>i j. i < j \<and> j < length xs \<longrightarrow>
            (case sortCriteria st of
               DATE \<Rightarrow> getTime (addedAt (xs ! i)) \<noteq> getTime (addedAt (xs ! j))
             | TITLE \<Rightarrow> localeCompare (title (xs ! i)) (title (xs ! j)) \<noteq> 0
             | RATING \<Rightarrow> (case rating (xs ! i) of None \<Rightarrow> 0 | Some r \<Rightarrow> r)
                           \<noteq> (case rating (xs ! j) of None \<Rightarrow> 0 | Some r \<Rightarrow> r)))
         \<longrightarrow> desc = rev asc)"
proof -
  let ?cmp = "comparison getTime localeCompare (sortCriteria st)"
  let ?neg = "\<lambda>a b. - ?cmp a b"
  let ?asc = "foldr (insertSorted ?cmp) xs []"
  let ?desc = "foldr (insertSorted ?neg) xs []"
  have c: "consistentOn ?cmp xs"
  proof (cases "sortCriteria st")
    case DATE
    with consistent_date[OF dt] show ?thesis by simp
  next
    case TITLE
    with consistent_title[OF lc] show ?thesis by simp
  next
    case RATING
    with consistent_rating show ?thesis by simp
  qed
  have n: "consistentOn ?neg xs" using c by (rule consistent_neg)
  have 1: "getSortedItems getTime localeCompare (st\<lparr>sortOrder := ASC\<rparr>) xs = Some ?asc"
    using c by (simp add: getSortedItems_def arraySort_def)
  have 2: "getSortedItems getTime localeCompare (st\<lparr>sortOrder := DESC\<rparr>) xs = Some ?desc"
    using n by (simp add: getSortedItems_def arraySort_def)
  have 3: "mset ?asc = mset xs" "mset ?desc = mset xs" by (rule mset_insertion)+
  have sa: "sorted_wrt (\<lambda>a b. ?cmp a b \<le> 0) ?asc" using c by (rule sorted_consistent)
  have sd: "sorted_wrt (\<lambda>a b. - ?cmp a b \<le> 0) ?desc" using n by (rule sorted_consistent)
  have 4: "case sortCriteria st of
          DATE \<Rightarrow>
            sorted_wrt (\<lambda>a b. \<exists>x y. getTime (addedAt a) = Some x \<and> getTime (addedAt b) = Some y \<and> x \<le> y) ?asc
          \<and> sorted_wrt (\<lambda>a b. \<exists>x y. getTime (addedAt a) = Some x \<and> getTime (addedAt b) = Some y \<and> y \<le> x) ?desc
        | TITLE \<Rightarrow>
            sorted_wrt (\<lambda>a b. localeCompare (title a) (title b) \<le> 0) ?asc
          \<and> sorted_wrt (\<lambda>a b. 0 \<le> localeCompare (title a) (title b)) ?desc
        | RATING \<Rightarrow>
            sorted_wrt (\<lambda>a b. (case rating a of None \<Rightarrow> 0 | Some r \<Rightarrow> r)
                               \<le> (case rating b of None \<Rightarrow> 0 | Some r \<Rightarrow> r)) ?asc
          \<and> sorted_wrt (\<lambda>a b. (case rating b of None \<Rightarrow> 0 | Some r \<Rightarrow> r)
                               \<le> (case rating a of None \<Rightarrow> 0 | Some r \<Rightarrow> r)) ?desc"
  proof (cases "sortCriteria st")
    case DATE
    have v: "\<exists>x. getTime (addedAt a) = Some x" if "a \<in> set xs" for a
      using dt[OF DATE] that by (auto simp: list_all_iff)
    have a: "sorted_wrt (\<lambda>a b. \<exists>x y. getTime (addedAt a) = Some x \<and> getTime (addedAt b) = Some y \<and> x \<le> y) ?asc"
    proof (rule sorted_wrt_on[OF sa])
      fix a b assume "a \<in> set ?asc" "b \<in> set ?asc" and le: "?cmp a b \<le> 0"
      then have "a \<in> set xs" "b \<in> set xs" by (simp_all add: set_insertion)
      from v[OF this(1)] v[OF this(2)] le
      show "\<exists>x y. getTime (addedAt a) = Some x \<and> getTime (addedAt b) = Some y \<and> x \<le> y"
        by (auto simp: comparison_def DATE)
    qed
    have d: "sorted_wrt (\<lambda>a b. \<exists>x y. getTime (addedAt a) = Some x \<and> getTime (addedAt b) = Some y \<and> y \<le> x) ?desc"
    proof (rule sorted_wrt_on[OF sd])
      fix a b assume "a \<in> set ?desc" "b \<in> set ?desc" and le: "- ?cmp a b \<le> 0"
      then have "a \<in> set xs" "b \<in> set xs" by (simp_all add: set_insertion)
      from v[OF this(1)] v[OF this(2)] le
      show "\<exists>x y. getTime (addedAt a) = Some x \<and> getTime (addedAt b) = Some y \<and> y \<le> x"
        by (auto simp: comparison_def DATE)
    qed
    from a d show ?thesis by (simp add: DATE)
  next
    case TITLE
    have a: "sorted_wrt (\<lambda>a b. localeCompare (title a) (title b) \<le> 0) ?asc"
      using sa by (simp add: comparison_def TITLE)
    have d: "sorted_wrt (\<lambda>a b. 0 \<le> localeCompare (title a) (title b)) ?desc"
      using sd by (simp add: comparison_def TITLE)
    from a d show ?thesis by (simp add: TITLE)
  next
    case RATING
    have a: "sorted_wrt (\<lambda>a b. (case rating a of None \<Rightarrow> 0 | Some r \<Rightarrow> r)
                               \<le> (case rating b of None \<Rightarrow> 0 | Some r \<Rightarrow> r)) ?asc"
      using sa by (simp add: comparison_def ratingOrZero_def RATING)
    have d: "sorted_wrt (\<lambda>a b. (case rating b of None \<Rightarrow> 0 | Some r \<Rightarrow> r)
                               \<le> (case rating a of None \<Rightarrow> 0 | Some r \<Rightarrow> r)) ?desc"
      using sd by (simp add: comparison_def ratingOrZero_def RATING)
    from a d show ?thesis by (simp add: RATING)
  qed
  have 5: "?desc = rev ?asc"
    if keys: "\<forall>i j. i < j \<and> j < length xs \<longrightarrow>
            (case sortCriteria st of
               DATE \<Rightarrow> getTime (addedAt (xs ! i)) \<noteq> getTime (addedAt (xs ! j))
             | TITLE \<Rightarrow> localeCompare (title (xs ! i)) (title (xs ! j)) \<noteq> 0
             | RATING \<Rightarrow> (case rating (xs ! i) of None \<Rightarrow> 0 | Some r \<Rightarrow> r)
                           \<noteq> (case rating (xs ! j) of None \<Rightarrow> 0 | Some r \<Rightarrow> r))"
  proof -
    have nz: "\<forall>i j. i < j \<and> j < length xs \<longrightarrow> ?cmp (xs ! i) (xs ! j) \<noteq> 0"
    proof (intro allI impI)
      fix i j assume ij: "i < j \<and> j < length xs"
      with keys have k: "case sortCriteria st of
               DATE \<Rightarrow> getTime (addedAt (xs ! i)) \<noteq> getTime (addedAt (xs ! j))
             | TITLE \<Rightarrow> localeCompare (title (xs ! i)) (title (xs ! j)) \<noteq> 0
             | RATING \<Rightarrow> (case rating (xs ! i) of None \<Rightarrow> 0 | Some r \<Rightarrow> r)
                           \<noteq> (case rating (xs ! j) of None \<Rightarrow> 0 | Some r \<Rightarrow> r)" by blast
      from ij have mem: "xs ! i \<in> set xs" "xs ! j \<in> set xs" by simp_all
      show "?cmp (xs ! i) (xs ! j) \<noteq> 0"
      proof (cases "sortCriteria st")
        case DATE
        have v: "\<exists>x. getTime (addedAt a) = Some x" if "a \<in> set xs" for a
          using dt[OF DATE] that by (auto simp: list_all_iff)
        from v[OF mem(1)] v[OF mem(2)] obtain x y where
          "getTime (addedAt (xs ! i)) = Some x" "getTime (addedAt (xs ! j)) = Some y"
          by blast
        with k show ?thesis by (simp add: comparison_def DATE)
      next
        case TITLE
        with k show ?thesis by (simp add: comparison_def)
      next
        case RATING
        with k show ?thesis by (simp add: comparison_def ratingOrZero_def)
      qed
    qed
    from insertion_flip[OF c nz] show ?thesis .
  qed
  from 1 2 3 4 5 show ?thesis by blast
qed

lemma exLocaleCompare_values:
  "exLocaleCompare (str ''emma'') (str ''emma'') = 0"
  "exLocaleCompare (str ''emma'') (str ''Dune'') = 1"
  "exLocaleCompare (str ''emma'') (str ''Ulysses'') = - 1"
  "exLocaleCompare (str ''Dune'') (str ''emma'') = - 1"
  "exLocaleCompare (str ''Dune'') (str ''Dune'') = 0"
  "exLocaleCompare (str ''Dune'') (str ''Ulysses'') = - 1"
  "exLocaleCompare (str ''Ulysses'') (str ''emma'') = 1"
  "exLocaleCompare (str ''Ulysses'') (str ''Dune'') = 1"
  "exLocaleCompare (str ''Ulysses'') (str ''Ulysses'') = 0"
  by (simp_all add: exLocaleCompare_def asciiLower_def str_def)

lemma exGetTime_values:
  "exGetTime (str ''2024-01-01T00:00:00.000Z'') = Some 1704067200000"
  "exGetTime (str ''2024-01-02T00:00:00.000Z'') = Some 1704153600000"
  "exGetTime (str ''2024-01-03T00:00:00.000Z'') = Some 1704240000000"
  "exGetTime [] = None"
  by (simp_all add: exGetTime_def str_def)

lemmas sort_simps = getSortedItems_def arraySort_def consistentOn_def comparison_def ratingOrZero_def
  exItems_def mkItem_def mkState_def exLocaleCompare_values exGetTime_values

lemma exItems_title: "consistentOn exLocaleCompare (map title exItems)"
  by (simp add: sort_simps)

lemma exItems_date: "list_all (\<lambda>a. exGetTime (addedAt a) \<noteq> None) exItems"
  by (simp add: sort_simps)

lemma exItems_sorted:
  "map_option (map title) (getSortedItems exGetTime exLocaleCompare
        ((mkState [] [])\<lparr>sortCriteria := TITLE, sortOrder := ASC\<rparr>) exItems)
     = Some [str ''Dune'', str ''emma'', str ''Ulysses'']"
  "map_option (map title) (getSortedItems exGetTime exLocaleCompare
        ((mkState [] [])\<lparr>sortCriteria := TITLE, sortOrder := DESC\<rparr>) exItems)
     = Some [str ''Ulysses'', str ''emma'', str ''Dune'']"
  "map_option (map itemId) (getSortedItems exGetTime exLocaleCompare
        ((mkState [] [])\<lparr>sortCriteria := DATE, sortOrder := ASC\<rparr>) exItems)
     = Some [str ''2'', str ''1'', str ''3'']"
  "map_option (map itemId) (getSortedItems exGetTime exLocaleCompare
        ((mkState [] [])\<lparr>sortCriteria := DATE, sortOrder := DESC\<rparr>) exItems)
     = Some [str ''3'', str ''1'', str ''2'']"
  "map_option (map itemId) (getSortedItems exGetTime exLocaleCompare
        ((mkState [] [])\<lparr>sortCriteria := RATING, sortOrder := ASC\<rparr>) exItems)
     = Some [str ''3'', str ''1'', str ''2'']"
  by (simp_all add: sort_simps)

text \<open>
  Three items with different titles, timestamps and ratings, in both directions: by title
  (``Dune'' before ``emma'' before ``Ulysses'', whatever the case), by date and by rating,
  the item without a rating coming first.
\<close>

theorem sorted_view_witness:
  "consistentOn exLocaleCompare (map title exItems)
   \<and> list_all (\<lambda>a. exGetTime (addedAt a) \<noteq> None) exItems
   \<and> map_option (map title) (getSortedItems exGetTime exLocaleCompare
        ((mkState [] [])\<lparr>sortCriteria := TITLE, sortOrder := ASC\<rparr>) exItems)
     = Some [str ''Dune'', str ''emma'', str ''Ulysses'']
   \<and> map_option (map title) (getSortedItems exGetTime exLocaleCompare
        ((mkState [] [])\<lparr>sortCriteria := TITLE, sortOrder := DESC\<rparr>) exItems)
     = Some [str ''Ulysses'', str ''emma'', str ''Dune'']
   \<and> map_option (map itemId) (getSortedItems exGetTime exLocaleCompare
        ((mkState [] [])\<lparr>sortCriteria := DATE, sortOrder := ASC\<rparr>) exItems)
     = Some [str ''2'', str ''1'', str ''3'']
   \<and> map_option (map itemId) (getSortedItems exGetTime exLocaleCompare
        ((mkState [] [])\<lparr>sortCriteria := DATE, sortOrder := DESC\<rparr>) exItems)
     = Some [str ''3'', str ''1'', str ''2'']
   \<and> map_option (map itemId) (getSortedItems exGetTime exLocaleCompare
        ((mkState [] [])\<lparr>sortCriteria := RATING, sortOrder := ASC\<rparr>) exItems)
     = Some [str ''3'', str ''1'', str ''2'']"
  using sorted_view [of "(mkState [] [])\<lparr>sortCriteria := TITLE\<rparr>" exGetTime exItems exLocaleCompare,
          OF exItems_date exItems_title]
        sorted_view [of "(mkState [] [])\<lparr>sortCriteria := DATE\<rparr>" exGetTime exItems exLocaleCompare,
          OF exItems_date exItems_title]
  by (simp only: exItems_date exItems_title exItems_sorted simp_thms)

text \<open>
  Pairwise different keys are not enough.  An added timestamp that does not parse has the
  time \<open>NaN\<close>, which differs from every time; the comparison with it is \<open>NaN\<close> in both
  directions, and the sort reads it as ``equal''.  With two items, the second of which has
  such a timestamp, both directions return the list as it is, not one the reverse of the
  other.
\<close>

theorem unparseable_date_not_reversed:
  "exGetTime (addedAt (mkItem ''1'' ''Dune'' ''Frank Herbert'' BOOK []))
     \<noteq> exGetTime (addedAt ((mkItem ''2'' ''Emma'' ''Jane Austen'' BOOK [])\<lparr>addedAt := []\<rparr>))
   \<and> map_option (map itemId) (getSortedItems exGetTime exLocaleCompare
        ((mkState [] [])\<lparr>sortCriteria := DATE, sortOrder := ASC\<rparr>)
        [mkItem ''1'' ''Dune'' ''Frank Herbert'' BOOK [],
         (mkItem ''2'' ''Emma'' ''Jane Austen'' BOOK [])\<lparr>addedAt := []\<rparr>])
     = Some [str ''1'', str ''2'']
   \<and> map_option (map itemId) (getSortedItems exGetTime exLocaleCompare
        ((mkState [] [])\<lparr>sortCriteria := DATE, sortOrder := DESC\<rparr>)
        [mkItem ''1'' ''Dune'' ''Frank Herbert'' BOOK [],
         (mkItem ''2'' ''Emma'' ''Jane Austen'' BOOK [])\<lparr>addedAt := []\<rparr>])
     = Some [str ''1'', str ''2'']"
  by (simp add: sort_simps)

section \<open>Search: proofs\<close>






















end
